theory Spec2Isabelle
  imports
    Main
    "HOL-Library.Log_Nat"
    "HOL-Library.Char_ord"
    "HOL-Library.List_Lexorder"
    "HOL-Library.Product_Lexorder"
    "HOL-Library.Multiset"
begin

section \<open>Stored procedure output validator: the comparison engine\<close>

text \<open>
  A shallow embedding of \<^verbatim>\<open>store_proc_validator.py\<close>: the value comparison
  \<^verbatim>\<open>safe_equals\<close>, the alignment by \<^verbatim>\<open>sort_values\<close> and the comparison loop
  that builds \<^verbatim>\<open>mismatch_report\<close>. The Streamlit widgets are inputs of the model (the
  four settings, the two uploaded frames, the selected key columns); what the script
  displays is the result.

  Python strings are modelled as \<^typ>\<open>string\<close> with one \<^typ>\<open>char\<close> per code point, so
  the model covers the code points 0 to 255.
\<close>

subsection \<open>Exceptions\<close>

datatype error = ValueError | TypeError | OverflowError | KeyError string

subsection \<open>Strings: \<^verbatim>\<open>str.strip\<close>, \<^verbatim>\<open>str.lower\<close>, \<^verbatim>\<open>str(int)\<close>\<close>

definition is_space :: "char \<Rightarrow> bool" where
  \<comment> \<open>\<^verbatim>\<open>str.isspace\<close> on the code points below 256\<close>
  "is_space c = (of_char c \<in> {9, 10, 11, 12, 13, 28, 29, 30, 31, 32, 133, 160 :: nat})"

definition strip :: "string \<Rightarrow> string" where
  "strip s = rev (dropWhile is_space (rev (dropWhile is_space s)))"

definition lower_char :: "char \<Rightarrow> char" where
  "lower_char c =
     (let n = of_char c :: nat
      in if (65 \<le> n \<and> n \<le> 90) \<or> (192 \<le> n \<and> n \<le> 222 \<and> n \<noteq> 215)
         then char_of (n + 32) else c)"

definition lower :: "string \<Rightarrow> string" where
  "lower s = map lower_char s"

definition digit_char :: "nat \<Rightarrow> char" where
  "digit_char d = char_of (48 + d)"

fun str_nat :: "nat \<Rightarrow> string" where
  "str_nat n = (if n < 10 then [digit_char n] else str_nat (n div 10) @ [digit_char (n mod 10)])"

definition str_int :: "int \<Rightarrow> string" where
  "str_int i = (if i < 0 then CHR ''-'' # str_nat (nat (- i)) else str_nat (nat i))"

subsection \<open>Python floats\<close>

text \<open>
  A Python float is an IEEE 754 binary64 value. A finite one is modelled by the rational
  it denotes; the negative zero, the infinities and the NaN are values of their own.
\<close>

datatype pyfloat = Finite rat | NegZero | PosInf | NegInf | NaN

definition float_isnan :: "pyfloat \<Rightarrow> bool" where
  "float_isnan x = (x = NaN)"

definition float_eq :: "pyfloat \<Rightarrow> pyfloat \<Rightarrow> bool" where
  \<comment> \<open>\<^verbatim>\<open>==\<close> on floats: the two zeros are equal, a NaN equals nothing\<close>
  "float_eq x y =
     (case (x, y) of
        (NaN, _) \<Rightarrow> False
      | (_, NaN) \<Rightarrow> False
      | (NegZero, NegZero) \<Rightarrow> True
      | (NegZero, Finite b) \<Rightarrow> b = 0
      | (Finite a, NegZero) \<Rightarrow> a = 0
      | (Finite a, Finite b) \<Rightarrow> a = b
      | (PosInf, PosInf) \<Rightarrow> True
      | (NegInf, NegInf) \<Rightarrow> True
      | _ \<Rightarrow> False)"

definition ilog2 :: "rat \<Rightarrow> int" where
  \<comment> \<open>the integer part of the binary logarithm of a positive rational\<close>
  "ilog2 q = (if 1 \<le> q then int (floorlog 2 (nat \<lfloor>q\<rfloor>)) - 1
              else - int (floorlog 2 (nat (\<lceil>1 / q\<rceil> - 1))))"

definition round_half_even :: "rat \<Rightarrow> int" where
  "round_half_even x =
     (let f = \<lfloor>x\<rfloor>; d = x - of_int f
      in if d < 1 / 2 then f else if 1 / 2 < d then f + 1 else if even f then f else f + 1)"

definition float_overflow :: rat where
  \<comment> \<open>the least magnitude that is not a finite float\<close>
  "float_overflow = 2 powi 1024"

definition double_mag :: "rat \<Rightarrow> rat option" where
  \<comment> \<open>the binary64 value nearest to a magnitude (53 bits, least exponent \<open>-1074\<close>, ties to
      even); \<open>None\<close> when it is beyond the largest finite value\<close>
  "double_mag q =
     (if q = 0 then Some 0
      else let ue = max (ilog2 q - 52) (- 1074);
               v = of_int (round_half_even (q / 2 powi ue)) * 2 powi ue
           in if float_overflow \<le> v then None else Some v)"

definition signed_float :: "bool \<Rightarrow> rat \<Rightarrow> pyfloat" where
  "signed_float neg v = (if v = 0 then (if neg then NegZero else Finite 0)
                         else Finite (if neg then - v else v))"

definition strtod :: "bool \<Rightarrow> rat \<Rightarrow> pyfloat" where
  \<comment> \<open>a sign and a decimal magnitude read as a float: overflow gives an infinity\<close>
  "strtod neg q =
     (case double_mag q of
        None \<Rightarrow> (if neg then NegInf else PosInf)
      | Some v \<Rightarrow> signed_float neg v)"

subsubsection \<open>\<^verbatim>\<open>float(str)\<close>\<close>

definition is_digit :: "char \<Rightarrow> bool" where
  "is_digit c = (48 \<le> (of_char c :: nat) \<and> (of_char c :: nat) \<le> 57)"

definition digits_val :: "string \<Rightarrow> nat" where
  "digits_val ds = foldl (\<lambda>n c. 10 * n + (of_char c - 48)) 0 ds"

definition to_ascii :: "char \<Rightarrow> char" where
  \<comment> \<open>a space beyond ASCII reads as a blank, any other character beyond ASCII is
      invalid\<close>
  "to_ascii c =
     (let n = of_char c :: nat
      in if n < 127 then c else if n = 133 \<or> n = 160 then CHR '' '' else CHR ''?'')"

definition is_ascii_space :: "char \<Rightarrow> bool" where
  "is_ascii_space c = (of_char c \<in> {9, 10, 11, 12, 13, 32 :: nat})"

fun drop_underscores :: "char \<Rightarrow> string \<Rightarrow> string option" where
  \<comment> \<open>an underscore is allowed between two digits only\<close>
  "drop_underscores prev [] = (if prev = CHR 0x5F then None else Some [])"
| "drop_underscores prev (c # cs) =
     (if c = CHR 0x5F then (if is_digit prev then drop_underscores c cs else None)
      else if prev = CHR 0x5F \<and> \<not> is_digit c then None
      else map_option ((#) c) (drop_underscores c cs))"

definition parse_decimal :: "string \<Rightarrow> (nat \<times> int) option" where
  \<comment> \<open>digits, an optional fraction and an optional exponent: \<open>(n, e)\<close> stands for
      \<open>n * 10 ^ e\<close>\<close>
  "parse_decimal s =
     (let ip = takeWhile is_digit s; r1 = dropWhile is_digit s;
          fp = (case r1 of c # r \<Rightarrow> if c = CHR ''.'' then takeWhile is_digit r else [] | [] \<Rightarrow> []);
          r2 = (case r1 of c # r \<Rightarrow> if c = CHR ''.'' then dropWhile is_digit r else r1 | [] \<Rightarrow> []);
          n = digits_val (ip @ fp)
      in if ip = [] \<and> fp = [] then None
         else case r2 of
           [] \<Rightarrow> Some (n, - int (length fp))
         | c # r3 \<Rightarrow>
             if c = CHR ''e'' \<or> c = CHR ''E'' then
               (let neg = (case r3 of d # _ \<Rightarrow> d = CHR ''-'' | [] \<Rightarrow> False);
                    r4 = (case r3 of d # r \<Rightarrow> if d = CHR ''-'' \<or> d = CHR ''+'' then r else r3
                          | [] \<Rightarrow> [])
                in if r4 \<noteq> [] \<and> list_all is_digit r4
                   then Some (n, (if neg then - int (digits_val r4) else int (digits_val r4))
                                  - int (length fp))
                   else None)
             else None)"

definition py_float :: "string \<Rightarrow> error + pyfloat" where
  "py_float s =
     (case drop_underscores (CHR 0x00)
             (rev (dropWhile is_ascii_space (rev (dropWhile is_ascii_space (map to_ascii s))))) of
        None \<Rightarrow> Inl ValueError
      | Some t \<Rightarrow>
          (let neg = (case t of c # _ \<Rightarrow> c = CHR ''-'' | [] \<Rightarrow> False);
               body = (case t of c # r \<Rightarrow> if c = CHR ''-'' \<or> c = CHR ''+'' then r else t
                       | [] \<Rightarrow> [])
           in case parse_decimal body of
                Some (n, e) \<Rightarrow> Inr (strtod neg (of_nat n * 10 powi e))
              | None \<Rightarrow>
                  if lower body = ''inf'' \<or> lower body = ''infinity''
                  then Inr (if neg then NegInf else PosInf)
                  else if lower body = ''nan'' then Inr NaN
                  else Inl ValueError))"

subsubsection \<open>\<^verbatim>\<open>round(x, ndigits)\<close>\<close>

definition py_round :: "pyfloat \<Rightarrow> int \<Rightarrow> error + pyfloat" where
  \<comment> \<open>the float nearest to the decimal rounding (ties to even) of the exact value;
      \<^verbatim>\<open>OverflowError\<close> when the rounded decimal is too large for a float\<close>
  "py_round x ndigits =
     (case x of
        Finite v \<Rightarrow>
          if 323 < ndigits then Inr x
          else if ndigits < - 308 then Inr (if v < 0 then NegZero else Finite 0)
          else (case double_mag (of_int (round_half_even (\<bar>v\<bar> * 10 powi ndigits))
                                  * 10 powi (- ndigits)) of
                  None \<Rightarrow> Inl OverflowError
                | Some r \<Rightarrow> Inr (signed_float (v < 0) r))
      | _ \<Rightarrow> Inr x)"

subsubsection \<open>The values of the format\<close>

text \<open>
  A finite float has a magnitude \<open>m * 2 ^ a\<close> with \<open>m\<close> of at most 53 bits and \<open>a\<close> not
  below \<open>-1074\<close>, and is smaller than \<open>2 ^ 1024\<close>.
\<close>

definition is_binary64 :: "pyfloat \<Rightarrow> bool" where
  "is_binary64 x =
     (case x of
        Finite v \<Rightarrow>
          (\<exists>m a. \<bar>v\<bar> = of_int m * 2 powi a \<and> 0 \<le> m \<and> m \<le> 2 ^ 53 \<and> - 1074 \<le> a \<and>
                 \<bar>v\<bar> < float_overflow)
      | _ \<Rightarrow> True)"

subsection \<open>Cell values\<close>

text \<open>
  A cell read by \<^verbatim>\<open>pd.read_excel\<close> is missing, a boolean, an integer, a float, a
  string or a timestamp (nanoseconds since the epoch, \<^verbatim>\<open>NaT\<close> when missing).
  \<^verbatim>\<open>str\<close> of a float and of a timestamp are functions of the Python runtime and of
  pandas; the model takes them as parameters, so every theorem below holds for whatever
  text they produce.
\<close>

datatype pyval =
    VNone
  | VNaT
  | VBool bool
  | VInt int
  | VFloat pyfloat
  | VStr string
  | VDatetime int

record runtime =
  float_str :: "pyfloat \<Rightarrow> string"
  datetime_str :: "int \<Rightarrow> string"

definition isna :: "pyval \<Rightarrow> bool" where
  \<comment> \<open>\<^verbatim>\<open>pd.isna\<close> on a scalar\<close>
  "isna v = (case v of VNone \<Rightarrow> True | VNaT \<Rightarrow> True | VFloat x \<Rightarrow> float_isnan x | _ \<Rightarrow> False)"

definition py_str :: "runtime \<Rightarrow> pyval \<Rightarrow> string" where
  "py_str rt v =
     (case v of
        VNone \<Rightarrow> ''None''
      | VNaT \<Rightarrow> ''NaT''
      | VBool b \<Rightarrow> (if b then ''True'' else ''False'')
      | VInt i \<Rightarrow> str_int i
      | VFloat x \<Rightarrow> float_str rt x
      | VStr s \<Rightarrow> s
      | VDatetime t \<Rightarrow> datetime_str rt t)"

subsection \<open>The comparison settings and \<^verbatim>\<open>safe_equals\<close>\<close>

record config =
  ignore_case :: bool
  ignore_whitespace :: bool
  float_precision :: int
  treat_nulls_equal :: bool

definition numeric_attempt :: "config \<Rightarrow> string \<Rightarrow> string \<Rightarrow> error + bool option" where
  \<comment> \<open>the body of the \<^verbatim>\<open>try\<close>: \<open>Some b\<close> is \<^verbatim>\<open>return b\<close>, \<open>None\<close> is falling out of
      the \<^verbatim>\<open>if\<close>\<close>
  "numeric_attempt cfg str1 str2 =
     (case (if str1 \<noteq> [] then py_float str1 else Inr NaN) of
        Inl e \<Rightarrow> Inl e
      | Inr num1 \<Rightarrow>
          (case (if str2 \<noteq> [] then py_float str2 else Inr NaN) of
             Inl e \<Rightarrow> Inl e
           | Inr num2 \<Rightarrow>
               if \<not> float_isnan num1 \<and> \<not> float_isnan num2 then
                 (case py_round num1 (float_precision cfg) of
                    Inl e \<Rightarrow> Inl e
                  | Inr r1 \<Rightarrow>
                      (case py_round num2 (float_precision cfg) of
                         Inl e \<Rightarrow> Inl e
                       | Inr r2 \<Rightarrow> Inr (Some (float_eq r1 r2))))
               else Inr None))"

definition post_process :: "runtime \<Rightarrow> config \<Rightarrow> pyval \<Rightarrow> string" where
  \<comment> \<open>lines 29 to 38 for one of the two values: \<^verbatim>\<open>str\<close>, then \<^verbatim>\<open>strip\<close>, then
      \<^verbatim>\<open>lower\<close>\<close>
  "post_process rt cfg val =
     (let s = (if val \<noteq> VNone then py_str rt val else []);
          s = (if ignore_whitespace cfg then strip s else s)
      in if ignore_case cfg then lower s else s)"

definition safe_equals :: "runtime \<Rightarrow> config \<Rightarrow> pyval \<Rightarrow> pyval \<Rightarrow> error + bool" where
  "safe_equals rt cfg val1 val2 =
     (if treat_nulls_equal cfg \<and> isna val1 \<and> isna val2 then Inr True
      else if treat_nulls_equal cfg \<and> (isna val1 \<or> isna val2) then Inr False
      else
        case numeric_attempt cfg (post_process rt cfg val1) (post_process rt cfg val2) of
          Inr (Some b) \<Rightarrow> Inr b
        | Inr None \<Rightarrow> Inr (post_process rt cfg val1 = post_process rt cfg val2)
        | Inl ValueError \<Rightarrow> Inr (post_process rt cfg val1 = post_process rt cfg val2)
        | Inl TypeError \<Rightarrow> Inr (post_process rt cfg val1 = post_process rt cfg val2)
        | Inl e \<Rightarrow> Inl e)"

subsection \<open>Data frames\<close>

text \<open>
  A frame has its column labels and its rows, a row being the dictionary of its cells.
  After \<^verbatim>\<open>reset_index(drop=True)\<close> the row labels are the positions \<open>0, 1, ...\<close>.
\<close>

type_synonym row = "string \<rightharpoonup> pyval"

record dataframe =
  columns :: "string list"
  rows :: "row list"

definition wf_frame :: "dataframe \<Rightarrow> bool" where
  \<comment> \<open>the labels are distinct and every row has a cell in each column\<close>
  "wf_frame df = (distinct (columns df) \<and> list_all (\<lambda>r. dom r = set (columns df)) (rows df))"

definition loc :: "dataframe \<Rightarrow> nat \<Rightarrow> string \<Rightarrow> error + pyval" where
  \<comment> \<open>\<^verbatim>\<open>df.loc[idx, col]\<close>: \<^verbatim>\<open>KeyError\<close> for a label that the frame does not have\<close>
  "loc df idx col =
     (if idx < length (rows df) then
        (case (rows df ! idx) col of Some v \<Rightarrow> Inr v | None \<Rightarrow> Inl (KeyError col))
      else Inl (KeyError (str_nat idx)))"

subsubsection \<open>\<^verbatim>\<open>sort_values(by=sort_cols)\<close>\<close>

text \<open>
  pandas sorts ascending with the missing values last. Numbers (booleans, integers and
  floats) compare by value, strings by code points, timestamps by time; a key column
  that mixes these classes cannot be ordered and raises \<^verbatim>\<open>TypeError\<close>. A cell is
  mapped to a key of a linear order: a flag for missing values, the class, and the
  value within the class.

  With one key column pandas sorts with \<^verbatim>\<open>kind='quicksort'\<close>, which does not promise
  an order among rows with equal keys, and with several key columns it orders a key
  column of mixed classes instead of raising. The model differs on both points: it sorts
  rows with equal keys stably and gives \<^verbatim>\<open>TypeError\<close> for every mixed key column. The
  theorems on the run below rest on neither: they take frames that \<^verbatim>\<open>sort_values\<close>
  accepts, and use that the sorted frame has the columns, the number of rows and the
  rows of the frame, and, where the keys are distinct, that the sorted order is unique.
\<close>

type_synonym cell_key = "nat \<times> nat \<times> (int \<times> rat) \<times> string \<times> int"

definition cell_key :: "pyval \<Rightarrow> cell_key" where
  "cell_key v =
     (case v of
        VNone \<Rightarrow> (1, 0, (0, 0), [], 0)
      | VNaT \<Rightarrow> (1, 0, (0, 0), [], 0)
      | VBool b \<Rightarrow> (0, 0, (0, if b then 1 else 0), [], 0)
      | VInt i \<Rightarrow> (0, 0, (0, of_int i), [], 0)
      | VFloat x \<Rightarrow>
          (case x of
             Finite q \<Rightarrow> (0, 0, (0, q), [], 0)
           | NegZero \<Rightarrow> (0, 0, (0, 0), [], 0)
           | PosInf \<Rightarrow> (0, 0, (1, 0), [], 0)
           | NegInf \<Rightarrow> (0, 0, (- 1, 0), [], 0)
           | NaN \<Rightarrow> (1, 0, (0, 0), [], 0))
      | VStr s \<Rightarrow> (0, 1, (0, 0), s, 0)
      | VDatetime t \<Rightarrow> (0, 2, (0, 0), [], t))"

definition cell :: "row \<Rightarrow> string \<Rightarrow> pyval" where
  "cell r k = (case r k of Some v \<Rightarrow> v | None \<Rightarrow> VNone)"

definition row_key :: "string list \<Rightarrow> row \<Rightarrow> cell_key list" where
  "row_key by r = map (\<lambda>k. cell_key (cell r k)) by"

definition orderable :: "pyval list \<Rightarrow> bool" where
  \<comment> \<open>the values of a key column that are not missing are of one class\<close>
  "orderable vs =
     (case filter (\<lambda>v. \<not> isna v) vs of
        [] \<Rightarrow> True
      | v # ws \<Rightarrow> list_all (\<lambda>w. fst (snd (cell_key w)) = fst (snd (cell_key v))) ws)"

definition sort_values :: "string list \<Rightarrow> dataframe \<Rightarrow> error + dataframe" where
  "sort_values by df =
     (case filter (\<lambda>k. k \<notin> set (columns df)) by of
        k # _ \<Rightarrow> Inl (KeyError k)
      | [] \<Rightarrow>
          if list_all (\<lambda>k. orderable (map (\<lambda>r. cell r k) (rows df))) by
          then Inr (df\<lparr>rows := sort_key (row_key by) (rows df)\<rparr>)
          else Inl TypeError)"

subsection \<open>The comparison loop\<close>

text \<open>
  A record of \<^verbatim>\<open>mismatch_report\<close> is the dictionary \<^verbatim>\<open>row_data\<close>: the entry
  \<^verbatim>\<open>Row\<close>, an entry \<^verbatim>\<open>Key_k\<close> for each key column and the entries \<^verbatim>\<open>Old_c\<close>
  and \<^verbatim>\<open>New_c\<close> for each column found different.
\<close>

type_synonym row_data = "string \<rightharpoonup> pyval"

fun key_entries :: "dataframe \<Rightarrow> nat \<Rightarrow> string list \<Rightarrow> row_data \<Rightarrow> error + row_data" where
  \<comment> \<open>lines 106 and 107\<close>
  "key_entries df_old idx [] row_data = Inr row_data"
| "key_entries df_old idx (key_col # ks) row_data =
     (case loc df_old idx key_col of
        Inl e \<Rightarrow> Inl e
      | Inr v \<Rightarrow> key_entries df_old idx ks (row_data(''Key_'' @ key_col \<mapsto> v)))"

fun compare_cols ::
  "runtime \<Rightarrow> config \<Rightarrow> dataframe \<Rightarrow> dataframe \<Rightarrow> nat \<Rightarrow> string list \<Rightarrow>
   bool \<times> string set \<times> row_data \<Rightarrow> error + bool \<times> string set \<times> row_data" where
  \<comment> \<open>lines 109 to 116; the state is \<^verbatim>\<open>row_has_mismatch\<close>, \<^verbatim>\<open>mismatched_columns\<close>
      and \<^verbatim>\<open>row_data\<close>\<close>
  "compare_cols rt cfg df_old df_new idx [] st = Inr st"
| "compare_cols rt cfg df_old df_new idx (col # cols) (row_has_mismatch, mismatched, row_data) =
     (case loc df_old idx col of
        Inl e \<Rightarrow> Inl e
      | Inr old_val \<Rightarrow>
          (case loc df_new idx col of
             Inl e \<Rightarrow> Inl e
           | Inr new_val \<Rightarrow>
               (case safe_equals rt cfg old_val new_val of
                  Inl e \<Rightarrow> Inl e
                | Inr True \<Rightarrow>
                    compare_cols rt cfg df_old df_new idx cols
                      (row_has_mismatch, mismatched, row_data)
                | Inr False \<Rightarrow>
                    compare_cols rt cfg df_old df_new idx cols
                      (True, insert col mismatched,
                       row_data(''Old_'' @ col \<mapsto> old_val, ''New_'' @ col \<mapsto> new_val)))))"

fun compare_rows ::
  "runtime \<Rightarrow> config \<Rightarrow> dataframe \<Rightarrow> dataframe \<Rightarrow> string list \<Rightarrow> string list \<Rightarrow>
   nat list \<Rightarrow> row_data list \<times> string set \<Rightarrow> error + row_data list \<times> string set" where
  \<comment> \<open>lines 99 to 119; the state is \<^verbatim>\<open>mismatch_report\<close> and
      \<^verbatim>\<open>mismatched_columns\<close>\<close>
  "compare_rows rt cfg df_old df_new sort_cols common_cols [] st = Inr st"
| "compare_rows rt cfg df_old df_new sort_cols common_cols (idx # idxs) (report, mismatched) =
     (case key_entries df_old idx sort_cols [''Row'' \<mapsto> VInt (int idx + 1)] of
        Inl e \<Rightarrow> Inl e
      | Inr row_data0 \<Rightarrow>
          (case compare_cols rt cfg df_old df_new idx common_cols (False, mismatched, row_data0) of
             Inl e \<Rightarrow> Inl e
           | Inr (row_has_mismatch, mismatched', row_data) \<Rightarrow>
               compare_rows rt cfg df_old df_new sort_cols common_cols idxs
                 (if row_has_mismatch then report @ [row_data] else report, mismatched')))"

record result =
  row_count_warning :: bool
  common_columns :: "string list"
  mismatch_report :: "row_data list"
  mismatched_columns :: "string set"

definition compare_sorted ::
  "runtime \<Rightarrow> config \<Rightarrow> dataframe \<Rightarrow> dataframe \<Rightarrow> string list \<Rightarrow> error + result" where
  \<comment> \<open>lines 91 to 119. \<^verbatim>\<open>common_cols\<close> is the list of a set: its order is not fixed
      by Python; the records are dictionaries and \<^verbatim>\<open>mismatched_columns\<close> is a set, so
      the order has no effect on them\<close>
  "compare_sorted rt cfg df_old_sorted df_new_sorted sort_cols =
     (let common_cols = filter (\<lambda>c. c \<in> set (columns df_new_sorted))
                          (remdups (columns df_old_sorted))
      in case compare_rows rt cfg df_old_sorted df_new_sorted sort_cols common_cols
                [0 ..< min (length (rows df_old_sorted)) (length (rows df_new_sorted))]
                ([], {}) of
           Inl e \<Rightarrow> Inl e
         | Inr (report, mismatched) \<Rightarrow>
             Inr \<lparr>row_count_warning =
                    (length (rows df_old_sorted) \<noteq> length (rows df_new_sorted)),
                  common_columns = common_cols,
                  mismatch_report = report,
                  mismatched_columns = mismatched\<rparr>)"

datatype outcome = NoKeySelected | Raised error | Compared result

definition run ::
  "runtime \<Rightarrow> config \<Rightarrow> dataframe \<Rightarrow> dataframe \<Rightarrow> string list \<Rightarrow> outcome" where
  \<comment> \<open>lines 84 to 119 and 174 to 175, both files uploaded\<close>
  "run rt cfg df_old df_new sort_cols =
     (if sort_cols \<noteq> [] then
        (case sort_values sort_cols df_old of
           Inl e \<Rightarrow> Raised e
         | Inr df_old_sorted \<Rightarrow>
             (case sort_values sort_cols df_new of
                Inl e \<Rightarrow> Raised e
              | Inr df_new_sorted \<Rightarrow>
                  (case compare_sorted rt cfg df_old_sorted df_new_sorted sort_cols of
                     Inl e \<Rightarrow> Raised e
                   | Inr res \<Rightarrow> Compared res)))
      else NoKeySelected)"

subsection \<open>What a record of the report holds\<close>

text \<open>
  The cell that \<^verbatim>\<open>df.loc[idx, col]\<close> reads, the test of line 112 on one column, the
  test \<^verbatim>\<open>row_has_mismatch\<close> of a row position, and the dictionary that the loop builds
  for a row position, entry by entry.
\<close>

definition cell_at :: "dataframe \<Rightarrow> nat \<Rightarrow> string \<Rightarrow> pyval option" where
  "cell_at df idx col = (case loc df idx col of Inr v \<Rightarrow> Some v | Inl e \<Rightarrow> None)"

definition differs :: "runtime \<Rightarrow> config \<Rightarrow> dataframe \<Rightarrow> dataframe \<Rightarrow> nat \<Rightarrow> string \<Rightarrow> bool" where
  "differs rt cfg df_old df_new idx col =
     (case loc df_old idx col of
        Inl e \<Rightarrow> False
      | Inr old_val \<Rightarrow>
          (case loc df_new idx col of
             Inl e \<Rightarrow> False
           | Inr new_val \<Rightarrow> safe_equals rt cfg old_val new_val = Inr False))"

definition row_differs ::
  "runtime \<Rightarrow> config \<Rightarrow> dataframe \<Rightarrow> dataframe \<Rightarrow> string list \<Rightarrow> nat \<Rightarrow> bool" where
  "row_differs rt cfg df_old df_new common_cols idx =
     list_ex (differs rt cfg df_old df_new idx) common_cols"

definition is_record_of ::
  "runtime \<Rightarrow> config \<Rightarrow> dataframe \<Rightarrow> dataframe \<Rightarrow> string list \<Rightarrow> string list \<Rightarrow> nat \<Rightarrow>
   row_data \<Rightarrow> bool" where
  "is_record_of rt cfg df_old df_new sort_cols common_cols idx rd =
     (rd ''Row'' = Some (VInt (int idx + 1)) \<and>
      (\<forall>k. rd (''Key_'' @ k) = (if k \<in> set sort_cols then cell_at df_old idx k else None)) \<and>
      (\<forall>c. rd (''Old_'' @ c) =
            (if c \<in> set common_cols \<and> differs rt cfg df_old df_new idx c
             then cell_at df_old idx c else None)) \<and>
      (\<forall>c. rd (''New_'' @ c) =
            (if c \<in> set common_cols \<and> differs rt cfg df_old df_new idx c
             then cell_at df_new idx c else None)) \<and>
      (\<forall>name. name \<noteq> ''Row'' \<and>
              (\<forall>x. name \<noteq> ''Key_'' @ x \<and> name \<noteq> ''Old_'' @ x \<and> name \<noteq> ''New_'' @ x)
              \<longrightarrow> rd name = None))"

text \<open>The first \<open>n\<close> rows of a frame (\<^verbatim>\<open>df.head(n)\<close>).\<close>

definition head_rows :: "nat \<Rightarrow> dataframe \<Rightarrow> dataframe" where
  "head_rows n df = df\<lparr>rows := take n (rows df)\<rparr>"

subsection \<open>Inputs of the examples\<close>

text \<open>
  The settings as the sidebar shows them at start, and a runtime for the examples: none of
  them renders a float or a timestamp, so its two functions are never called.
\<close>

definition default_config :: config where
  "default_config =
     \<lparr>ignore_case = True, ignore_whitespace = True, float_precision = 5,
      treat_nulls_equal = True\<rparr>"

definition example_runtime :: runtime where
  "example_runtime = \<lparr>float_str = (\<lambda>x. []), datetime_str = (\<lambda>t. [])\<rparr>"

definition frame_a :: dataframe where
  "frame_a = \<lparr>columns = [''id'', ''v''],
              rows = [[''id'' \<mapsto> VStr ''a'', ''v'' \<mapsto> VStr ''x''],
                      [''id'' \<mapsto> VStr ''b'', ''v'' \<mapsto> VStr ''y'']]\<rparr>"

definition frame_b :: dataframe where
  "frame_b = \<lparr>columns = [''id'', ''v''],
              rows = [[''id'' \<mapsto> VStr ''b'', ''v'' \<mapsto> VStr ''z''],
                      [''id'' \<mapsto> VStr ''a'', ''v'' \<mapsto> VStr ''X'']]\<rparr>"


definition frame_c :: dataframe where
  "frame_c = \<lparr>columns = [''key'', ''v''],
              rows = [[''key'' \<mapsto> VStr ''a'', ''v'' \<mapsto> VStr ''x'']]\<rparr>"


definition frame_short :: dataframe where
  "frame_short = \<lparr>columns = [''id'', ''v''],
                  rows = [[''id'' \<mapsto> VStr ''a'', ''v'' \<mapsto> VStr ''x'']]\<rparr>"




section \<open>Properties of the floats\<close>

subsection \<open>Powers of two, rounding to an integer, the binary logarithm\<close>

lemma pow2_less_cancel: "(2::rat) powi a < 2 powi b \<Longrightarrow> a < b"
  using power_int_increasing [of b a "2::rat"] by (cases "a < b") auto

lemma pow2_le_cancel: "(2::rat) powi a \<le> 2 powi b \<Longrightarrow> a \<le> b"
  using power_int_strict_increasing [of b a "2::rat"] by (cases "a \<le> b") auto

lemma pow2_mono: "a \<le> b \<Longrightarrow> (2::rat) powi a \<le> 2 powi b"
  by (rule power_int_increasing) auto

lemma pow2_add: "(2::rat) powi (a + b) = 2 powi a * 2 powi b"
  by (rule power_int_add) simp

lemma round_half_even_bounds:
  "x - 1 / 2 \<le> of_int (round_half_even x)" "of_int (round_half_even x) \<le> x + 1 / 2"
  unfolding round_half_even_def Let_def by (auto; linarith)+

lemma round_half_even_of_int [simp]: "round_half_even (of_int n) = n"
  by (simp add: round_half_even_def)

lemma round_half_even_unique:
  assumes "\<bar>x - of_int n\<bar> < 1 / 2"
  shows "round_half_even x = n"
proof -
  have "\<bar>of_int (round_half_even x) - (of_int n :: rat)\<bar> < 1"
    using round_half_even_bounds [of x] assms by linarith
  then have "\<bar>(of_int (round_half_even x - n) :: rat)\<bar> < 1"
    by simp
  then have "\<bar>round_half_even x - n\<bar> < 1"
    by (metis of_int_abs of_int_less_1_iff)
  then show ?thesis by simp
qed

lemma round_half_even_nonneg: "0 \<le> x \<Longrightarrow> 0 \<le> round_half_even x"
  unfolding round_half_even_def Let_def by auto

lemma ilog2_bounds:
  assumes "0 < q"
  shows "2 powi (ilog2 q) \<le> q" "q < 2 powi (ilog2 q + 1)"
proof -
  show "2 powi (ilog2 q) \<le> q"
  proof (cases "1 \<le> q")
    case True
    define n where "n = nat \<lfloor>q\<rfloor>"
    have n: "0 < n" "of_nat n \<le> q"
      using True by (auto simp: n_def)
    have "2 ^ (floorlog 2 n - 1) \<le> n"
      using floorlog_bounds [of n 2] n by simp
    then have "(of_nat (2 ^ (floorlog 2 n - 1)) :: rat) \<le> of_nat n"
      by (simp only: of_nat_le_iff)
    moreover have "(of_nat (2 ^ (floorlog 2 n - 1)) :: rat) = 2 ^ (floorlog 2 n - 1)"
      by simp
    ultimately have "(2::rat) ^ (floorlog 2 n - 1) \<le> q"
      using n(2) by linarith
    moreover have "0 < floorlog 2 n"
      using n by (simp add: floorlog_def)
    ultimately show ?thesis
      using True by (simp add: ilog2_def n_def power_int_def nat_diff_distrib of_nat_diff)
  next
    case False
    define c where "c = \<lceil>1 / q\<rceil>"
    define n where "n = nat (c - 1)"
    have r: "1 < 1 / q" using False assms by simp
    then have c: "2 \<le> c" "1 / q \<le> of_int c"
      unfolding c_def by (auto simp: le_ceiling_iff less_ceiling_iff intro: order_less_imp_le)
    have n: "0 < n" "int n = c - 1" using c by (auto simp: n_def)
    have "n < 2 ^ floorlog 2 n"
      using floorlog_bounds [of n 2] n by simp
    then have "int n < 2 ^ floorlog 2 n"
      by (metis of_nat_less_iff of_nat_numeral of_nat_power)
    then have "c \<le> 2 ^ floorlog 2 n"
      using n by simp
    then have "(of_int c :: rat) \<le> 2 ^ floorlog 2 n"
      by (metis of_int_le_iff of_int_numeral of_int_power)
    then have "1 / q \<le> 2 ^ floorlog 2 n"
      using c by linarith
    then have "1 / 2 ^ floorlog 2 n \<le> q"
      using assms by (simp add: field_simps)
    moreover have "ilog2 q = - int (floorlog 2 n)"
      using False by (simp add: ilog2_def c_def n_def)
    moreover have "(2::rat) powi (- int (floorlog 2 n)) = 1 / 2 ^ floorlog 2 n"
      by (simp add: power_int_minus_divide)
    ultimately show ?thesis
      by simp
  qed
  show "q < 2 powi (ilog2 q + 1)"
  proof (cases "1 \<le> q")
    case True
    define n where "n = nat \<lfloor>q\<rfloor>"
    have n: "0 < n" "q < of_nat n + 1"
      using True by (auto simp: n_def) linarith
    have "n < 2 ^ floorlog 2 n"
      using floorlog_bounds [of n 2] n by simp
    then have "n + 1 \<le> 2 ^ floorlog 2 n" by simp
    then have "(of_nat (n + 1) :: rat) \<le> of_nat (2 ^ floorlog 2 n)"
      by (simp only: of_nat_le_iff)
    then have "q < 2 ^ floorlog 2 n"
      using n by simp
    then show ?thesis
      using True by (simp add: ilog2_def n_def power_int_def)
  next
    case False
    define c where "c = \<lceil>1 / q\<rceil>"
    define n where "n = nat (c - 1)"
    have r: "1 < 1 / q" using False assms by simp
    then have c: "2 \<le> c" "of_int c - 1 < 1 / q"
      unfolding c_def by (auto simp: le_ceiling_iff less_ceiling_iff) linarith
    have n: "0 < n" "int n = c - 1" using c by (auto simp: n_def)
    have l: "0 < floorlog 2 n"
      using n by (simp add: floorlog_def)
    have "2 ^ (floorlog 2 n - 1) \<le> n"
      using floorlog_bounds [of n 2] n by simp
    then have "(of_nat (2 ^ (floorlog 2 n - 1)) :: rat) \<le> of_nat n"
      by (simp only: of_nat_le_iff)
    moreover have "(of_nat n :: rat) = of_int c - 1"
      using n(2) by (metis of_int_1 of_int_diff of_int_of_nat_eq)
    ultimately have "(2::rat) ^ (floorlog 2 n - 1) < 1 / q"
      using c by simp
    then have "q < 1 / 2 ^ (floorlog 2 n - 1)"
      using assms by (simp add: field_simps)
    moreover have "ilog2 q + 1 = - int (floorlog 2 n - 1)"
      using False l by (simp add: ilog2_def c_def n_def)
    moreover have "(2::rat) powi (- int (floorlog 2 n - 1)) = 1 / 2 ^ (floorlog 2 n - 1)"
      by (simp add: power_int_minus_divide)
    ultimately show ?thesis
      by simp
  qed
qed

lemma ilog2_unique:
  assumes "2 powi e \<le> q" "q < 2 powi (e + 1)"
  shows "ilog2 q = e"
proof -
  have q: "0 < q"
    using assms(1) zero_less_power_int [of "2::rat" e] by linarith
  note b = ilog2_bounds [OF q]
  have "(2::rat) powi e < 2 powi (ilog2 q + 1)" using assms(1) b(2) by linarith
  then have "e < ilog2 q + 1" by (rule pow2_less_cancel)
  moreover have "(2::rat) powi (ilog2 q) < 2 powi (e + 1)" using assms(2) b(1) by linarith
  then have "ilog2 q < e + 1" by (rule pow2_less_cancel)
  ultimately show ?thesis by simp
qed

subsection \<open>Rounding to the format\<close>

lemma double_mag_pos:
  assumes "0 < q"
  shows "double_mag q =
           (if float_overflow \<le> of_int (round_half_even (q / 2 powi max (ilog2 q - 52) (- 1074)))
                                 * (2::rat) powi max (ilog2 q - 52) (- 1074)
            then None
            else Some (of_int (round_half_even (q / 2 powi max (ilog2 q - 52) (- 1074)))
                         * 2 powi max (ilog2 q - 52) (- 1074)))"
  using assms by (simp add: double_mag_def Let_def)

lemma double_mag_cert:
  assumes e: "2 powi e \<le> q" "q < 2 powi (e + 1)"
    and ue: "ue = max (e - 52) (- 1074)"
    and m: "\<bar>q / 2 powi ue - of_int m\<bar> < 1 / 2"
    and v: "of_int m * (2::rat) powi ue < float_overflow"
  shows "double_mag q = Some (of_int m * 2 powi ue)"
proof -
  have q: "0 < q"
    using e(1) zero_less_power_int [of "2::rat" e] by linarith
  have "ilog2 q = e"
    using e by (rule ilog2_unique)
  moreover have "round_half_even (q / 2 powi ue) = m"
    using m by (rule round_half_even_unique)
  ultimately show ?thesis
    using v unfolding double_mag_pos [OF q] ue by simp
qed

lemma double_mag_small:
  assumes "0 \<le> q" "q \<le> 2 powi 1023"
  shows "\<exists>v. double_mag q = Some v"
proof (cases "q = 0")
  case True
  then show ?thesis by (simp add: double_mag_def)
next
  case False
  with assms have q: "0 < q" by simp
  define ue where "ue = max (ilog2 q - 52) (- 1074)"
  define P where "P = (2::rat) powi ue"
  define M where "M = (2::rat) powi 1023"
  have P: "0 < P" by (simp add: P_def)
  have "(2::rat) powi (ilog2 q) \<le> 2 powi 1023"
    using ilog2_bounds(1) [OF q] assms(2) by linarith
  then have "ilog2 q \<le> 1023" by (rule pow2_le_cancel)
  then have "ue \<le> 1022" by (simp add: ue_def)
  then have "P \<le> 2 powi 1022" unfolding P_def by (rule pow2_mono)
  moreover have "M = 2 powi 1022 * 2"
    unfolding M_def using pow2_add [of 1022 1] by simp
  ultimately have PM: "P \<le> M / 2" by simp
  have M2: "float_overflow = M * 2"
    unfolding M_def float_overflow_def using pow2_add [of 1023 1] by simp
  have M0: "0 < M" by (simp add: M_def)
  have "of_int (round_half_even (q / P)) \<le> q / P + 1 / 2"
    by (rule round_half_even_bounds)
  then have "of_int (round_half_even (q / P)) * P \<le> (q / P + 1 / 2) * P"
    using P by (simp only: mult_le_cancel_right_pos)
  also have "\<dots> = q + P / 2"
    using P by (simp add: field_simps)
  also have "\<dots> < M * 2"
    using assms(2) PM M0 unfolding M_def [symmetric] by linarith
  finally have "of_int (round_half_even (q / P)) * P < float_overflow"
    unfolding M2 .
  then show ?thesis
    unfolding double_mag_pos [OF q] P_def ue_def by simp
qed

lemma double_mag_structure:
  assumes q: "0 \<le> q" and d: "double_mag q = Some v"
  shows "\<exists>m a. v = of_int m * 2 powi a \<and> 0 \<le> m \<and> m \<le> 2 ^ 53 \<and> - 1074 \<le> a \<and> v < float_overflow"
proof (cases "q = 0")
  case True
  with d have "v = 0" by (simp add: double_mag_def)
  then have "v = of_int 0 * 2 powi 0 \<and> (0::int) \<le> 0 \<and> (0::int) \<le> 2 ^ 53 \<and> - 1074 \<le> (0::int) \<and> v < float_overflow"
    by (simp add: float_overflow_def)
  then show ?thesis by blast
next
  case False
  with q have q: "0 < q" by simp
  define ue where "ue = max (ilog2 q - 52) (- 1074)"
  define P where "P = (2::rat) powi ue"
  define m where "m = round_half_even (q / P)"
  have P: "0 < P" by (simp add: P_def)
  from d have v: "v = of_int m * P" "v < float_overflow"
    unfolding double_mag_pos [OF q] m_def P_def ue_def by (auto split: if_splits)
  have "q < 2 powi (ilog2 q + 1)" by (rule ilog2_bounds(2) [OF q])
  also have "\<dots> \<le> 2 powi (ue + 53)"
    by (rule pow2_mono) (simp add: ue_def)
  also have "\<dots> = P * 2 ^ 53"
    unfolding P_def using pow2_add [of ue 53] by simp
  finally have "q / P < 2 ^ 53"
    using P by (simp add: field_simps)
  moreover have "of_int m \<le> q / P + 1 / 2"
    unfolding m_def by (rule round_half_even_bounds)
  ultimately have "(of_int m :: rat) < 2 ^ 53 + 1" by linarith
  also have "\<dots> = of_int (2 ^ 53 + 1)" by simp
  finally have "m < 2 ^ 53 + 1" by (simp only: of_int_less_iff)
  then have m1: "m \<le> 2 ^ 53" by simp
  have "0 \<le> q / P" using q P by simp
  then have m0: "0 \<le> m" unfolding m_def by (rule round_half_even_nonneg)
  have "- 1074 \<le> ue" by (simp add: ue_def)
  with v m0 m1 show ?thesis unfolding P_def by blast
qed

lemma pow2_quotient:
  assumes "v = of_int k * (2::rat) powi a" "b \<le> a"
  shows "v / 2 powi b = of_int (k * 2 ^ nat (a - b))"
proof -
  have "(2::rat) powi a = 2 powi (a - b) * 2 powi b"
    using pow2_add [of "a - b" b] by simp
  moreover have "(2::rat) powi (a - b) = 2 ^ nat (a - b)"
    using assms(2) by (simp add: power_int_nonneg_exp)
  ultimately show ?thesis
    using assms(1) by simp
qed

lemma double_mag_repr:
  assumes v: "v = of_int m * (2::rat) powi a" and m: "0 \<le> m" "m \<le> 2 ^ 53"
    and a: "- 1074 \<le> a" and f: "v < float_overflow"
  shows "double_mag v = Some v"
proof (cases "v = 0")
  case True
  then show ?thesis by (simp add: double_mag_def)
next
  case False
  have A: "0 < (2::rat) powi a" by simp
  have v0: "0 < v"
    using False v m(1) A by (simp add: zero_less_mult_iff less_le)
  define ue where "ue = max (ilog2 v - 52) (- 1074)"
  have "of_int m \<le> (2::rat) ^ 53"
    using m(2) by (metis of_int_le_iff of_int_numeral of_int_power)
  then have vle: "v \<le> 2 ^ 53 * 2 powi a"
    unfolding v using A by (simp only: mult_le_cancel_right_pos)
  also have p53: "\<dots> = 2 powi (a + 53)"
    using pow2_add [of a 53] by simp
  finally have "(2::rat) powi (ilog2 v) \<le> 2 powi (a + 53)"
    using ilog2_bounds(1) [OF v0] by linarith
  then have "ilog2 v \<le> a + 53" by (rule pow2_le_cancel)
  then have le: "ue \<le> a + 1"
    using a by (simp add: ue_def)
  have "\<exists>j. v / 2 powi ue = of_int j"
  proof (cases "ue \<le> a")
    case True
    from pow2_quotient [OF v True] show ?thesis by blast
  next
    case False
    with le a have "ilog2 v = a + 53"
      unfolding ue_def by (simp add: max_def split: if_splits)
    with ilog2_bounds(1) [OF v0] have "(2::rat) powi (a + 53) \<le> v" by simp
    with vle p53
    have "v = of_int 1 * 2 powi (a + 53)" by simp
    moreover have "ue \<le> a + 53" using le by simp
    ultimately have "v / 2 powi ue = of_int (1 * 2 ^ nat (a + 53 - ue))"
      by (rule pow2_quotient)
    then show ?thesis by blast
  qed
  then obtain j where j: "v / 2 powi ue = of_int j" by blast
  have P: "0 < (2::rat) powi ue" by simp
  have "of_int (round_half_even (v / 2 powi ue)) * 2 powi ue = v"
    unfolding j using j P by (simp add: field_simps)
  then show ?thesis
    using f unfolding double_mag_pos [OF v0] ue_def by simp
qed

subsection \<open>\<^verbatim>\<open>float\<close> and \<^verbatim>\<open>round\<close> stay in the format\<close>

lemma signed_float_binary64:
  assumes "\<exists>m a. v = of_int m * (2::rat) powi a \<and> 0 \<le> m \<and> m \<le> 2 ^ 53 \<and> - 1074 \<le> a \<and> v < float_overflow"
  shows "is_binary64 (signed_float neg v)"
proof -
  from assms obtain m a where
    v: "v = of_int m * (2::rat) powi a" "0 \<le> m" "m \<le> 2 ^ 53" "- 1074 \<le> a" "v < float_overflow"
    by blast
  have "0 \<le> v" unfolding v(1) using v(2) by simp
  then have "\<bar>v\<bar> = v" "\<bar>- v\<bar> = v" by simp_all
  moreover have "(0::rat) = of_int 0 * 2 powi 0 \<and> (0::int) \<le> 0 \<and> (0::int) \<le> 2 ^ 53 \<and> - 1074 \<le> (0::int) \<and> (0::rat) < float_overflow"
    by (simp add: float_overflow_def)
  ultimately show ?thesis
    using v unfolding is_binary64_def signed_float_def by (auto simp del: of_int_0)
qed

lemma strtod_binary64:
  assumes "0 \<le> q"
  shows "is_binary64 (strtod neg q)"
proof (cases "double_mag q")
  case None
  then show ?thesis by (simp add: strtod_def is_binary64_def)
next
  case (Some v)
  from signed_float_binary64 [OF double_mag_structure [OF assms Some]] Some
  show ?thesis by (simp add: strtod_def)
qed

lemma py_float_cases:
  assumes "py_float s = Inr x"
  shows "(\<exists>neg n e. x = strtod neg (of_nat n * 10 powi e)) \<or> x = PosInf \<or> x = NegInf \<or> x = NaN"
  using assms unfolding py_float_def Let_def
  by (auto split: option.splits if_splits)

lemma py_float_binary64:
  assumes "py_float s = Inr x"
  shows "is_binary64 x"
proof -
  have "is_binary64 (strtod neg (of_nat n * 10 powi e))" for neg n e
    by (rule strtod_binary64) simp
  with py_float_cases [OF assms] show ?thesis
    by (auto simp: is_binary64_def)
qed

lemma pow10_inverse: "(10::rat) powi p * 10 powi (- p) = 1"
  using power_int_add [of "10::rat" p "- p"] by simp

lemma py_round_total:
  assumes x: "is_binary64 x" and p: "0 \<le> p"
  shows "\<exists>y. py_round x p = Inr y"
proof (cases x)
  case (Finite v)
  with x obtain m a where
    w: "\<bar>v\<bar> = of_int m * (2::rat) powi a" "0 \<le> m" "m \<le> 2 ^ 53" "- 1074 \<le> a" "\<bar>v\<bar> < float_overflow"
    unfolding is_binary64_def by auto
  define t where "t = round_half_even (\<bar>v\<bar> * 10 powi p)"
  define r where "r = of_int t * (10::rat) powi (- p)"
  have T: "0 < (10::rat) powi p" "0 < (10::rat) powi (- p)" by simp_all
  have "\<exists>u. double_mag r = Some u"
  proof (cases "0 \<le> a")
    case True
    have "(2::rat) powi a = of_int (2 ^ nat a)"
      using True by (simp add: power_int_nonneg_exp)
    moreover have "(10::rat) powi p = of_int (10 ^ nat p)"
      using p by (simp add: power_int_nonneg_exp)
    ultimately have "\<bar>v\<bar> * 10 powi p = of_int (m * 2 ^ nat a * 10 ^ nat p)"
      unfolding w(1) by simp
    then have "of_int t = \<bar>v\<bar> * 10 powi p"
      unfolding t_def by (simp only: round_half_even_of_int)
    then have "r = \<bar>v\<bar> * (10 powi p * 10 powi (- p))"
      unfolding r_def by (simp only: mult.assoc)
    then have "r = \<bar>v\<bar>"
      by (simp only: pow10_inverse mult_1_right)
    moreover have "double_mag \<bar>v\<bar> = Some \<bar>v\<bar>"
      using w by (rule double_mag_repr)
    ultimately show ?thesis by simp
  next
    case False
    then have "a \<le> - 1" by simp
    then have "(2::rat) powi a \<le> 2 powi (- 1)" by (rule pow2_mono)
    then have A: "(2::rat) powi a \<le> 1 / 2" by simp
    have "of_int m \<le> (2::rat) ^ 53"
      using w(3) by (metis of_int_le_iff of_int_numeral of_int_power)
    moreover have "0 \<le> (of_int m :: rat)" using w(2) by simp
    moreover have "0 < (2::rat) powi a" by simp
    ultimately have "of_int m * (2::rat) powi a \<le> 2 ^ 53 * (1 / 2)"
      using A by (intro mult_mono) auto
    then have v: "\<bar>v\<bar> \<le> 2 ^ 52" unfolding w(1) by simp
    have "0 \<le> \<bar>v\<bar> * 10 powi p" by simp
    then have "0 \<le> t" unfolding t_def by (rule round_half_even_nonneg)
    then have r0: "0 \<le> r" unfolding r_def by simp
    have "of_int t \<le> \<bar>v\<bar> * 10 powi p + 1 / 2"
      unfolding t_def by (rule round_half_even_bounds)
    then have "of_int t * 10 powi (- p) \<le> (\<bar>v\<bar> * 10 powi p + 1 / 2) * 10 powi (- p)"
      using T(2) by (simp only: mult_le_cancel_right_pos)
    also have "\<dots> = \<bar>v\<bar> * (10 powi p * 10 powi (- p)) + 1 / 2 * 10 powi (- p)"
      by (simp add: algebra_simps)
    also have "\<dots> = \<bar>v\<bar> + 1 / 2 * 10 powi (- p)"
      by (simp only: pow10_inverse mult_1_right)
    also have "(10::rat) powi (- p) \<le> 1"
      using p by (simp add: power_int_minus_divide power_int_nonneg_exp field_simps)
    finally have "r \<le> \<bar>v\<bar> + 1 / 2"
      unfolding r_def by simp
    with v have "r \<le> 2 ^ 53" by simp
    also have "(2::rat) ^ 53 = 2 powi 53" by simp
    also have "\<dots> \<le> 2 powi 1023" by (rule pow2_mono) simp
    finally show ?thesis
      using r0 by (intro double_mag_small)
  qed
  then show ?thesis
    using Finite unfolding py_round_def t_def r_def
    by (auto split: option.splits)
qed (simp_all add: py_round_def)

subsection \<open>Evaluating \<^verbatim>\<open>float\<close> and \<^verbatim>\<open>round\<close> on given numbers\<close>

lemma small_not_overflow: "x \<le> 2 ^ 53 \<Longrightarrow> x < float_overflow"
proof -
  assume "x \<le> 2 ^ 53"
  also have "(2::rat) ^ 53 = 2 powi 53" by simp
  also have "\<dots> < 2 powi 1024" by (rule power_int_strict_increasing) simp_all
  finally show ?thesis by (simp only: float_overflow_def)
qed

lemma strtod_cert:
  assumes "2 powi e \<le> q" "q < 2 powi (e + 1)"
    and "ue = max (e - 52) (- 1074)"
    and "\<bar>q / 2 powi ue - of_int m\<bar> < 1 / 2"
    and "of_int m * (2::rat) powi ue \<le> 2 ^ 53"
    and "of_int m * (2::rat) powi ue = v" "v \<noteq> 0"
  shows "strtod False q = Finite v"
proof -
  have "double_mag q = Some (of_int m * 2 powi ue)"
    using assms(1-4) small_not_overflow [OF assms(5)] by (rule double_mag_cert)
  then show ?thesis
    using assms(6,7) by (simp add: strtod_def signed_float_def)
qed

lemma py_round_cert:
  assumes "0 < v" "- 308 \<le> nd" "nd \<le> 323"
    and "\<bar>v * 10 powi nd - of_int t\<bar> < 1 / 2"
    and "strtod False (of_int t * 10 powi (- nd)) = Finite r"
  shows "py_round (Finite v) nd = Inr (Finite r)"
proof -
  have "round_half_even (\<bar>v\<bar> * 10 powi nd) = t"
    using assms(1,4) by (intro round_half_even_unique) simp
  then show ?thesis
    using assms(1,2,3,5)
    by (auto simp: py_round_def strtod_def signed_float_def split: option.splits if_splits)
qed


section \<open>Properties of \<^verbatim>\<open>safe_equals\<close>\<close>

subsection \<open>Symmetry\<close>

lemma float_eq_sym: "float_eq x y = float_eq y x"
  by (cases x; cases y) (auto simp: float_eq_def)

lemma py_float_error: "py_float s = Inl e \<Longrightarrow> e = ValueError"
  by (auto simp: py_float_def Let_def split: option.splits if_splits prod.splits)

lemma py_round_error: "py_round x p = Inl e \<Longrightarrow> e = OverflowError"
  by (auto simp: py_round_def split: pyfloat.splits option.splits if_splits)

lemma numeric_attempt_sym: "numeric_attempt cfg s t = numeric_attempt cfg t s"
  unfolding numeric_attempt_def
  by (auto simp: float_eq_sym split: sum.splits dest!: py_float_error py_round_error)

text \<open>
  Claim C5: for all cell values \<open>a\<close> and \<open>b\<close> and all settings, comparing \<open>a\<close> with \<open>b\<close>
  gives what comparing \<open>b\<close> with \<open>a\<close> gives (the same boolean, or the same exception).
\<close>

theorem safe_equals_symmetric: "safe_equals rt cfg a b = safe_equals rt cfg b a"
proof -
  have "numeric_attempt cfg (post_process rt cfg a) (post_process rt cfg b) =
        numeric_attempt cfg (post_process rt cfg b) (post_process rt cfg a)"
    by (rule numeric_attempt_sym)
  then show ?thesis
    unfolding safe_equals_def
    by (auto split: sum.splits option.splits error.splits)
qed

theorem safe_equals_symmetric_witness:
  "safe_equals example_runtime default_config (VStr ''x'') VNone = Inr False \<and>
   safe_equals example_runtime default_config VNone (VStr ''x'') = Inr False"
  using safe_equals_symmetric [of example_runtime default_config "VStr ''x''" VNone]
  by (simp add: safe_equals_def isna_def default_config_def)

subsection \<open>Missing values\<close>

lemma post_process_empty [simp]: "post_process rt cfg (VStr []) = []"
  by (simp add: post_process_def py_str_def strip_def lower_def)

text \<open>
  Claim C6: with \<^verbatim>\<open>treat_nulls_equal\<close> set, two missing values are equal (\<^verbatim>\<open>None\<close>
  and \<^verbatim>\<open>None\<close> in particular), and a missing value never equals a value that is not
  missing (\<^verbatim>\<open>None\<close> and \<^verbatim>\<open>"x"\<close> in particular), on either side.
\<close>

theorem nulls_equal_rule:
  "treat_nulls_equal cfg \<Longrightarrow>
     safe_equals rt cfg VNone VNone = Inr True \<and>
     safe_equals rt cfg VNone (VStr ''x'') = Inr False \<and>
     (isna a \<and> isna b \<longrightarrow> safe_equals rt cfg a b = Inr True) \<and>
     (isna a \<and> \<not> isna b \<longrightarrow>
        safe_equals rt cfg a b = Inr False \<and> safe_equals rt cfg b a = Inr False)"
  by (simp add: safe_equals_def isna_def)

theorem nulls_equal_rule_witness:
  "treat_nulls_equal default_config \<and>
   isna (VFloat NaN) \<and> isna VNaT \<and> \<not> isna (VInt 3) \<and>
   safe_equals example_runtime default_config VNone VNone = Inr True \<and>
   safe_equals example_runtime default_config VNone (VStr ''x'') = Inr False \<and>
   safe_equals example_runtime default_config (VFloat NaN) VNaT = Inr True \<and>
   safe_equals example_runtime default_config VNaT (VInt 3) = Inr False \<and>
   safe_equals example_runtime default_config (VInt 3) VNaT = Inr False"
proof -
  have t: "treat_nulls_equal default_config"
    by (simp add: default_config_def)
  have n: "isna (VFloat NaN)" "isna VNaT" "\<not> isna (VInt 3)"
    by (simp_all add: isna_def float_isnan_def)
  show ?thesis
    using t n
      nulls_equal_rule [OF t, of example_runtime "VFloat NaN" VNaT]
      nulls_equal_rule [OF t, of example_runtime VNaT "VInt 3"]
    by simp
qed

text \<open>
  Claim C10: with \<^verbatim>\<open>treat_nulls_equal\<close> set, the empty string is not a missing value:
  it never equals \<^verbatim>\<open>None\<close>, and it equals itself because the numeric attempt falls
  through (both sides are taken as NaN) to the comparison of the strings.
\<close>

theorem empty_string_not_null:
  "treat_nulls_equal cfg \<Longrightarrow>
     \<not> isna (VStr []) \<and>
     safe_equals rt cfg (VStr []) VNone = Inr False \<and>
     safe_equals rt cfg VNone (VStr []) = Inr False \<and>
     numeric_attempt cfg (post_process rt cfg (VStr [])) (post_process rt cfg (VStr []))
       = Inr None \<and>
     safe_equals rt cfg (VStr []) (VStr []) = Inr True"
  by (simp add: safe_equals_def isna_def numeric_attempt_def float_isnan_def)

theorem empty_string_not_null_witness:
  "treat_nulls_equal default_config \<and>
   safe_equals example_runtime default_config (VStr []) VNone = Inr False \<and>
   safe_equals example_runtime default_config (VStr []) (VStr []) = Inr True"
proof -
  have t: "treat_nulls_equal default_config"
    by (simp add: default_config_def)
  show ?thesis
    using t empty_string_not_null [OF t, of example_runtime] by simp
qed

subsection \<open>No exception\<close>

lemma py_round_parsed:
  assumes "0 \<le> p" "py_float u = Inr x"
  shows "py_round x p \<noteq> Inl e"
  using py_round_total [OF py_float_binary64 [OF assms(2)] assms(1)] by auto

lemma numeric_attempt_error:
  assumes "0 \<le> float_precision cfg" "numeric_attempt cfg s t = Inl e"
  shows "e = ValueError"
  using assms(2) py_round_parsed [OF assms(1)] unfolding numeric_attempt_def
  by (auto split: sum.splits if_splits simp: float_isnan_def dest: py_float_error)

lemma safe_equals_total:
  assumes "0 \<le> float_precision cfg"
  shows "\<exists>r. safe_equals rt cfg a b = Inr r"
proof (cases "numeric_attempt cfg (post_process rt cfg a) (post_process rt cfg b)")
  case (Inl e)
  with numeric_attempt_error [OF assms Inl] show ?thesis
    by (auto simp: safe_equals_def)
next
  case (Inr r)
  then show ?thesis
    by (cases r) (auto simp: safe_equals_def)
qed

lemma py_float_empty: "py_float [] = Inl ValueError"
  by (simp add: py_float_def parse_decimal_def lower_def)




subsection \<open>Reflexivity\<close>

lemma float_eq_refl: "x \<noteq> NaN \<Longrightarrow> float_eq x x"
  by (cases x) (simp_all add: float_eq_def)

lemma py_round_not_nan: "py_round x p = Inr y \<Longrightarrow> x \<noteq> NaN \<Longrightarrow> y \<noteq> NaN"
  by (auto simp: py_round_def signed_float_def split: pyfloat.splits option.splits if_splits)

lemma numeric_attempt_refl:
  "numeric_attempt cfg s s = Inr (Some b) \<Longrightarrow> b"
  unfolding numeric_attempt_def
  by (auto split: sum.splits if_splits simp: float_isnan_def dest!: py_round_not_nan intro: float_eq_refl)

lemma safe_equals_refl:
  assumes "0 \<le> float_precision cfg"
  shows "safe_equals rt cfg a a = Inr True"
proof (cases "numeric_attempt cfg (post_process rt cfg a) (post_process rt cfg a)")
  case (Inl e)
  with numeric_attempt_error [OF assms Inl] show ?thesis
    by (simp add: safe_equals_def)
next
  case (Inr r)
  then show ?thesis
    using numeric_attempt_refl [of cfg "post_process rt cfg a"]
    by (cases r) (auto simp: safe_equals_def)
qed

subsection \<open>The numeric comparison\<close>

lemma numeric_attempt_numbers:
  assumes "py_float s = Inr x" "py_float t = Inr y" "x \<noteq> NaN" "y \<noteq> NaN"
    and "py_round x (float_precision cfg) = Inr r1" "py_round y (float_precision cfg) = Inr r2"
  shows "numeric_attempt cfg s t = Inr (Some (float_eq r1 r2))"
proof -
  have "s \<noteq> []" "t \<noteq> []"
    using assms(1,2) py_float_empty by auto
  then show ?thesis
    using assms by (simp add: numeric_attempt_def float_isnan_def)
qed

lemma py_float_1_000001: "py_float ''1.000001'' = Inr (Finite (4503604130970123 / 4503599627370496))"
proof -
  have "parse_decimal ''1.000001'' = Some (1000001, - 6)"
    by (simp add: parse_decimal_def is_digit_def digits_val_def Let_def)
  then have "py_float ''1.000001'' = Inr (strtod False (of_nat 1000001 * 10 powi (- 6)))"
    by (simp add: py_float_def to_ascii_def is_ascii_space_def is_digit_def)
  also have "strtod False (of_nat 1000001 * 10 powi (- 6)) = Finite (4503604130970123 / 4503599627370496)"
    by (rule strtod_cert [where e = 0 and m = 4503604130970123 and ue = "- 52"]) simp_all
  finally show ?thesis .
qed

lemma py_float_1_000002: "py_float ''1.000002'' = Inr (Finite (4503608634569751 / 4503599627370496))"
proof -
  have "parse_decimal ''1.000002'' = Some (1000002, - 6)"
    by (simp add: parse_decimal_def is_digit_def digits_val_def Let_def)
  then have "py_float ''1.000002'' = Inr (strtod False (of_nat 1000002 * 10 powi (- 6)))"
    by (simp add: py_float_def to_ascii_def is_ascii_space_def is_digit_def)
  also have "strtod False (of_nat 1000002 * 10 powi (- 6)) = Finite (4503608634569751 / 4503599627370496)"
    by (rule strtod_cert [where e = 0 and m = 4503608634569751 and ue = "- 52"]) simp_all
  finally show ?thesis .
qed

lemma py_float_1_00001: "py_float ''1.00001'' = Inr (Finite (4503644663366770 / 4503599627370496))"
proof -
  have "parse_decimal ''1.00001'' = Some (100001, - 5)"
    by (simp add: parse_decimal_def is_digit_def digits_val_def Let_def)
  then have "py_float ''1.00001'' = Inr (strtod False (of_nat 100001 * 10 powi (- 5)))"
    by (simp add: py_float_def to_ascii_def is_ascii_space_def is_digit_def)
  also have "strtod False (of_nat 100001 * 10 powi (- 5)) = Finite (4503644663366770 / 4503599627370496)"
    by (rule strtod_cert [where e = 0 and m = 4503644663366770 and ue = "- 52"]) simp_all
  finally show ?thesis .
qed

lemma py_float_1_00002: "py_float ''1.00002'' = Inr (Finite (4503689699363043 / 4503599627370496))"
proof -
  have "parse_decimal ''1.00002'' = Some (100002, - 5)"
    by (simp add: parse_decimal_def is_digit_def digits_val_def Let_def)
  then have "py_float ''1.00002'' = Inr (strtod False (of_nat 100002 * 10 powi (- 5)))"
    by (simp add: py_float_def to_ascii_def is_ascii_space_def is_digit_def)
  also have "strtod False (of_nat 100002 * 10 powi (- 5)) = Finite (4503689699363043 / 4503599627370496)"
    by (rule strtod_cert [where e = 0 and m = 4503689699363043 and ue = "- 52"]) simp_all
  finally show ?thesis .
qed

lemma py_round_1_000001:
  "py_round (Finite (4503604130970123 / 4503599627370496)) 5 = Inr (Finite 1)"
proof -
  have s: "strtod False (of_int 100000 * 10 powi (- 5)) = Finite 1"
    by (rule strtod_cert [where e = 0 and m = 4503599627370496 and ue = "- 52"]) simp_all
  show ?thesis
    by (rule py_round_cert [where t = 100000, OF _ _ _ _ s]) simp_all
qed

lemma py_round_1_000002:
  "py_round (Finite (4503608634569751 / 4503599627370496)) 5 = Inr (Finite 1)"
proof -
  have s: "strtod False (of_int 100000 * 10 powi (- 5)) = Finite 1"
    by (rule strtod_cert [where e = 0 and m = 4503599627370496 and ue = "- 52"]) simp_all
  show ?thesis
    by (rule py_round_cert [where t = 100000, OF _ _ _ _ s]) simp_all
qed

lemma py_round_1_00001:
  "py_round (Finite (4503644663366770 / 4503599627370496)) 5 = Inr (Finite (4503644663366770 / 4503599627370496))"
proof -
  have s: "strtod False (of_int 100001 * 10 powi (- 5)) = Finite (4503644663366770 / 4503599627370496)"
    by (rule strtod_cert [where e = 0 and m = 4503644663366770 and ue = "- 52"]) simp_all
  show ?thesis
    by (rule py_round_cert [where t = 100001, OF _ _ _ _ s]) simp_all
qed

lemma py_round_1_00002:
  "py_round (Finite (4503689699363043 / 4503599627370496)) 5 = Inr (Finite (4503689699363043 / 4503599627370496))"
proof -
  have s: "strtod False (of_int 100002 * 10 powi (- 5)) = Finite (4503689699363043 / 4503599627370496)"
    by (rule strtod_cert [where e = 0 and m = 4503689699363043 and ue = "- 52"]) simp_all
  show ?thesis
    by (rule py_round_cert [where t = 100002, OF _ _ _ _ s]) simp_all
qed

lemma post_process_decimals:
  "post_process rt cfg (VStr ''1.000001'') = ''1.000001''"
  "post_process rt cfg (VStr ''1.000002'') = ''1.000002''"
  "post_process rt cfg (VStr ''1.00001'') = ''1.00001''"
  "post_process rt cfg (VStr ''1.00002'') = ''1.00002''"
proof -
  have "strip ''1.000001'' = ''1.000001''" "strip ''1.000002'' = ''1.000002''"
    "strip ''1.00001'' = ''1.00001''" "strip ''1.00002'' = ''1.00002''"
    by (simp_all add: strip_def is_space_def)
  moreover have "lower ''1.000001'' = ''1.000001''" "lower ''1.000002'' = ''1.000002''"
    "lower ''1.00001'' = ''1.00001''" "lower ''1.00002'' = ''1.00002''"
    by (simp_all add: lower_def lower_char_def)
  ultimately show
    "post_process rt cfg (VStr ''1.000001'') = ''1.000001''"
    "post_process rt cfg (VStr ''1.000002'') = ''1.000002''"
    "post_process rt cfg (VStr ''1.00001'') = ''1.00001''"
    "post_process rt cfg (VStr ''1.00002'') = ''1.00002''"
    by (simp_all add: post_process_def py_str_def Let_def)
qed

lemma safe_equals_numbers:
  assumes "\<not> (treat_nulls_equal cfg \<and> (isna a \<or> isna b))"
    and "py_float (post_process rt cfg a) = Inr x" "py_float (post_process rt cfg b) = Inr y"
    and "x \<noteq> NaN" "y \<noteq> NaN"
    and "py_round x (float_precision cfg) = Inr r1" "py_round y (float_precision cfg) = Inr r2"
  shows "safe_equals rt cfg a b = Inr (float_eq r1 r2)"
  using assms(1) numeric_attempt_numbers [OF assms(2-7)]
  by (auto simp: safe_equals_def)

lemma tolerance_examples:
  assumes "float_precision cfg = 5"
  shows "safe_equals rt cfg (VStr ''1.000001'') (VStr ''1.000002'') = Inr True"
    and "safe_equals rt cfg (VStr ''1.00001'') (VStr ''1.00002'') = Inr False"
proof -
  have n: "\<not> (treat_nulls_equal cfg \<and> (isna (VStr s) \<or> isna (VStr t)))" for s t
    by (simp add: isna_def)
  have a: "py_float (post_process rt cfg (VStr ''1.000001'')) =
             Inr (Finite (4503604130970123 / 4503599627370496))"
    by (simp only: post_process_decimals py_float_1_000001)
  have b: "py_float (post_process rt cfg (VStr ''1.000002'')) =
             Inr (Finite (4503608634569751 / 4503599627370496))"
    by (simp only: post_process_decimals py_float_1_000002)
  have ra: "py_round (Finite (4503604130970123 / 4503599627370496)) (float_precision cfg) =
             Inr (Finite 1)"
    by (simp only: assms py_round_1_000001)
  have rb: "py_round (Finite (4503608634569751 / 4503599627370496)) (float_precision cfg) =
             Inr (Finite 1)"
    by (simp only: assms py_round_1_000002)
  have "safe_equals rt cfg (VStr ''1.000001'') (VStr ''1.000002'') =
          Inr (float_eq (Finite 1) (Finite 1))"
    by (rule safe_equals_numbers [OF n a b _ _ ra rb]) simp_all
  then show "safe_equals rt cfg (VStr ''1.000001'') (VStr ''1.000002'') = Inr True"
    by (simp add: float_eq_def)
  have c: "py_float (post_process rt cfg (VStr ''1.00001'')) =
             Inr (Finite (4503644663366770 / 4503599627370496))"
    by (simp only: post_process_decimals py_float_1_00001)
  have d: "py_float (post_process rt cfg (VStr ''1.00002'')) =
             Inr (Finite (4503689699363043 / 4503599627370496))"
    by (simp only: post_process_decimals py_float_1_00002)
  have rc: "py_round (Finite (4503644663366770 / 4503599627370496)) (float_precision cfg) =
             Inr (Finite (4503644663366770 / 4503599627370496))"
    by (simp only: assms py_round_1_00001)
  have rd: "py_round (Finite (4503689699363043 / 4503599627370496)) (float_precision cfg) =
             Inr (Finite (4503689699363043 / 4503599627370496))"
    by (simp only: assms py_round_1_00002)
  have "safe_equals rt cfg (VStr ''1.00001'') (VStr ''1.00002'') =
          Inr (float_eq (Finite (4503644663366770 / 4503599627370496))
                        (Finite (4503689699363043 / 4503599627370496)))"
    by (rule safe_equals_numbers [OF n c d _ _ rc rd]) simp_all
  then show "safe_equals rt cfg (VStr ''1.00001'') (VStr ''1.00002'') = Inr False"
    by (simp add: float_eq_def)
qed

lemma numeric_attempt_nan:
  assumes "py_float s = Inr NaN \<or> py_float t = Inr NaN"
  shows "numeric_attempt cfg s t = Inr None \<or> numeric_attempt cfg s t = Inl ValueError"
  using assms unfolding numeric_attempt_def
  by (auto split: sum.splits simp: float_isnan_def dest: py_float_error)

lemma safe_equals_nan:
  assumes "\<not> (treat_nulls_equal cfg \<and> (isna a \<or> isna b))"
    and "py_float (post_process rt cfg a) = Inr NaN \<or> py_float (post_process rt cfg b) = Inr NaN"
  shows "safe_equals rt cfg a b = Inr (post_process rt cfg a = post_process rt cfg b)"
  using assms(1) numeric_attempt_nan [OF assms(2), of cfg]
  by (auto simp: safe_equals_def)

lemma py_float_nan: "py_float ''nan'' = Inr NaN" "py_float ''+nan'' = Inr NaN"
  by (simp_all add: py_float_def parse_decimal_def to_ascii_def is_ascii_space_def is_digit_def
      lower_def lower_char_def Let_def)

lemma post_process_nan:
  "post_process example_runtime default_config (VStr ''NAN'') = ''nan''"
  "post_process example_runtime default_config (VStr ''nan'') = ''nan''"
  "post_process example_runtime default_config (VStr ''+nan'') = ''+nan''"
  unfolding post_process_def default_config_def py_str_def by code_simp+

text \<open>
  Claim C2, amended: for two values that the rule for missing values does not settle and
  whose strings both parse as floats other than NaN, \<^verbatim>\<open>safe_equals\<close> returns the
  comparison of the two floats rounded to \<^verbatim>\<open>float_precision\<close> digits; when one of the
  strings parses as NaN, it returns the comparison of the strings; with five digits,
  \<^verbatim>\<open>"1.000001"\<close> equals \<^verbatim>\<open>"1.000002"\<close> and \<^verbatim>\<open>"1.00001"\<close> does not equal
  \<^verbatim>\<open>"1.00002"\<close>.
\<close>

theorem numeric_comparison:
  "(\<not> (treat_nulls_equal cfg \<and> (isna a \<or> isna b)) \<and>
    py_float (post_process rt cfg a) = Inr x \<and> py_float (post_process rt cfg b) = Inr y \<and>
    x \<noteq> NaN \<and> y \<noteq> NaN \<and> 0 \<le> float_precision cfg
    \<longrightarrow> (\<exists>r1 r2. py_round x (float_precision cfg) = Inr r1 \<and>
                 py_round y (float_precision cfg) = Inr r2 \<and>
                 safe_equals rt cfg a b = Inr (float_eq r1 r2))) \<and>
   (\<not> (treat_nulls_equal cfg \<and> (isna a \<or> isna b)) \<and>
    (py_float (post_process rt cfg a) = Inr NaN \<or> py_float (post_process rt cfg b) = Inr NaN)
    \<longrightarrow> safe_equals rt cfg a b = Inr (post_process rt cfg a = post_process rt cfg b)) \<and>
   (float_precision cfg = 5
    \<longrightarrow> safe_equals rt cfg (VStr ''1.000001'') (VStr ''1.000002'') = Inr True \<and>
        safe_equals rt cfg (VStr ''1.00001'') (VStr ''1.00002'') = Inr False)"
proof (intro conjI impI)
  assume h: "\<not> (treat_nulls_equal cfg \<and> (isna a \<or> isna b)) \<and>
    py_float (post_process rt cfg a) = Inr x \<and> py_float (post_process rt cfg b) = Inr y \<and>
    x \<noteq> NaN \<and> y \<noteq> NaN \<and> 0 \<le> float_precision cfg"
  then obtain r1 r2 where
    r: "py_round x (float_precision cfg) = Inr r1" "py_round y (float_precision cfg) = Inr r2"
    using py_round_total [OF py_float_binary64, of _ x "float_precision cfg"]
      py_round_total [OF py_float_binary64, of _ y "float_precision cfg"]
    by blast
  from h have "safe_equals rt cfg a b = Inr (float_eq r1 r2)"
    by (intro safe_equals_numbers [OF _ _ _ _ _ r]) simp_all
  with r show "\<exists>r1 r2. py_round x (float_precision cfg) = Inr r1 \<and>
                 py_round y (float_precision cfg) = Inr r2 \<and>
                 safe_equals rt cfg a b = Inr (float_eq r1 r2)"
    by blast
next
  assume "\<not> (treat_nulls_equal cfg \<and> (isna a \<or> isna b)) \<and>
    (py_float (post_process rt cfg a) = Inr NaN \<or> py_float (post_process rt cfg b) = Inr NaN)"
  then show "safe_equals rt cfg a b = Inr (post_process rt cfg a = post_process rt cfg b)"
    by (intro safe_equals_nan) simp_all
next
  assume "float_precision cfg = 5"
  then show "safe_equals rt cfg (VStr ''1.000001'') (VStr ''1.000002'') = Inr True"
    by (rule tolerance_examples)
next
  assume "float_precision cfg = 5"
  then show "safe_equals rt cfg (VStr ''1.00001'') (VStr ''1.00002'') = Inr False"
    by (rule tolerance_examples)
qed

theorem numeric_comparison_witness:
  "float_precision default_config = 5 \<and>
   py_float (post_process example_runtime default_config (VStr ''1.00001'')) =
     Inr (Finite (4503644663366770 / 4503599627370496)) \<and>
   py_float (post_process example_runtime default_config (VStr ''1.00002'')) =
     Inr (Finite (4503689699363043 / 4503599627370496)) \<and>
   py_round (Finite (4503644663366770 / 4503599627370496)) 5 =
     Inr (Finite (4503644663366770 / 4503599627370496)) \<and>
   py_round (Finite (4503689699363043 / 4503599627370496)) 5 =
     Inr (Finite (4503689699363043 / 4503599627370496)) \<and>
   safe_equals example_runtime default_config (VStr ''1.00001'') (VStr ''1.00002'') = Inr False \<and>
   safe_equals example_runtime default_config (VStr ''1.000001'') (VStr ''1.000002'') = Inr True \<and>
   py_float (post_process example_runtime default_config (VStr ''NAN'')) = Inr NaN \<and>
   py_float (post_process example_runtime default_config (VStr ''+nan'')) = Inr NaN \<and>
   safe_equals example_runtime default_config (VStr ''NAN'') (VStr ''+nan'') = Inr False \<and>
   safe_equals example_runtime default_config (VStr ''NAN'') (VStr ''nan'') = Inr True"
proof -
  have p: "float_precision default_config = 5"
    by (simp add: default_config_def)
  have c: "py_float (post_process example_runtime default_config (VStr ''1.00001'')) =
             Inr (Finite (4503644663366770 / 4503599627370496))"
    by (simp only: post_process_decimals py_float_1_00001)
  have d: "py_float (post_process example_runtime default_config (VStr ''1.00002'')) =
             Inr (Finite (4503689699363043 / 4503599627370496))"
    by (simp only: post_process_decimals py_float_1_00002)
  have n: "py_float (post_process example_runtime default_config (VStr ''NAN'')) = Inr NaN"
    "py_float (post_process example_runtime default_config (VStr ''+nan'')) = Inr NaN"
    by (simp_all only: post_process_nan py_float_nan)
  have i: "\<not> isna (VStr ''NAN'')" "\<not> isna (VStr ''+nan'')" "\<not> isna (VStr ''nan'')"
    by (simp_all add: isna_def)
  show ?thesis
    using p c d n i py_round_1_00001 py_round_1_00002
      numeric_comparison [of default_config "VStr ''1.00001''" "VStr ''1.00002''"
        example_runtime "Finite (4503644663366770 / 4503599627370496)"
        "Finite (4503689699363043 / 4503599627370496)"]
      numeric_comparison [of default_config "VStr ''NAN''" "VStr ''+nan''" example_runtime]
      numeric_comparison [of default_config "VStr ''NAN''" "VStr ''nan''" example_runtime]
    by (simp add: post_process_nan)
qed

text \<open>
  The claim as stated fails on strings that parse as NaN: line 43 sends them to the
  comparison of the strings, so the cell \<^verbatim>\<open>"NAN"\<close> equals the cell \<^verbatim>\<open>"NAN"\<close>, while a NaN
  rounded and compared with itself is not equal.
\<close>

theorem numeric_comparison_counterexample:
  "py_float (post_process example_runtime default_config (VStr ''NAN'')) = Inr NaN \<and>
   py_round NaN (float_precision default_config) = Inr NaN \<and>
   float_eq NaN NaN = False \<and>
   safe_equals example_runtime default_config (VStr ''NAN'') (VStr ''NAN'') = Inr True"
  by (simp add: post_process_nan py_float_nan safe_equals_def numeric_attempt_def float_isnan_def
      isna_def py_round_def float_eq_def)

section \<open>Properties of the comparison loop\<close>

subsection \<open>The loop, entry by entry\<close>

lemma key_entries_result:
  "key_entries df idx ks rd = Inr rd' \<Longrightarrow>
     (\<forall>k. rd' (''Key_'' @ k) = (if k \<in> set ks then cell_at df idx k else rd (''Key_'' @ k))) \<and>
     (\<forall>name. (\<forall>x. name \<noteq> ''Key_'' @ x) \<longrightarrow> rd' name = rd name)"
proof (induction ks arbitrary: rd)
  case Nil
  then show ?case by simp
next
  case (Cons key_col ks)
  from Cons.prems obtain v where
    v: "loc df idx key_col = Inr v" and
    r: "key_entries df idx ks (rd(''Key_'' @ key_col \<mapsto> v)) = Inr rd'"
    by (auto split: sum.splits)
  from Cons.IH [OF r] v show ?case
    by (auto simp: cell_at_def)
qed

lemma compare_cols_result:
  "compare_cols rt cfg df_old df_new idx cols (has, mc, rd) = Inr (has', mc', rd') \<Longrightarrow>
     has' = (has \<or> list_ex (differs rt cfg df_old df_new idx) cols) \<and>
     mc' = mc \<union> {c \<in> set cols. differs rt cfg df_old df_new idx c} \<and>
     (\<forall>c. rd' (''Old_'' @ c) =
           (if c \<in> set cols \<and> differs rt cfg df_old df_new idx c
            then cell_at df_old idx c else rd (''Old_'' @ c))) \<and>
     (\<forall>c. rd' (''New_'' @ c) =
           (if c \<in> set cols \<and> differs rt cfg df_old df_new idx c
            then cell_at df_new idx c else rd (''New_'' @ c))) \<and>
     (\<forall>name. (\<forall>x. name \<noteq> ''Old_'' @ x \<and> name \<noteq> ''New_'' @ x) \<longrightarrow> rd' name = rd name)"
proof (induction cols arbitrary: has mc rd)
  case Nil
  then show ?case by simp
next
  case (Cons col cols)
  from Cons.prems obtain old_val new_val b where
    o: "loc df_old idx col = Inr old_val" and
    n: "loc df_new idx col = Inr new_val" and
    e: "safe_equals rt cfg old_val new_val = Inr b"
    by (auto split: sum.splits)
  show ?case
  proof (cases b)
    case True
    with Cons.prems o n e have
      r: "compare_cols rt cfg df_old df_new idx cols (has, mc, rd) = Inr (has', mc', rd')"
      by simp
    have d: "\<not> differs rt cfg df_old df_new idx col"
      using o n e True by (simp add: differs_def)
    from Cons.IH [OF r] d show ?thesis
      by auto
  next
    case False
    with Cons.prems o n e have
      r: "compare_cols rt cfg df_old df_new idx cols
            (True, insert col mc, rd(''Old_'' @ col \<mapsto> old_val, ''New_'' @ col \<mapsto> new_val))
          = Inr (has', mc', rd')"
      by simp
    have d: "differs rt cfg df_old df_new idx col"
      using o n e False by (simp add: differs_def)
    from Cons.IH [OF r] d o n show ?thesis
      by (auto simp: cell_at_def)
  qed
qed

lemma row_record:
  assumes k: "key_entries df_old idx sort_cols [''Row'' \<mapsto> VInt (int idx + 1)] = Inr rd0"
    and c: "compare_cols rt cfg df_old df_new idx common_cols (False, mc, rd0) = Inr (has, mc', rd)"
  shows "is_record_of rt cfg df_old df_new sort_cols common_cols idx rd"
    and "has = row_differs rt cfg df_old df_new common_cols idx"
    and "mc' = mc \<union> {c \<in> set common_cols. differs rt cfg df_old df_new idx c}"
proof -
  note K = key_entries_result [OF k]
  note C = compare_cols_result [OF c]
  show "has = row_differs rt cfg df_old df_new common_cols idx"
    using C by (simp add: row_differs_def)
  show "mc' = mc \<union> {c \<in> set common_cols. differs rt cfg df_old df_new idx c}"
    using C by simp
  have row: "rd ''Row'' = Some (VInt (int idx + 1))"
    using K C by simp
  have keys: "rd (''Key_'' @ k) = (if k \<in> set sort_cols then cell_at df_old idx k else None)" for k
    using K C by simp
  have olds: "rd (''Old_'' @ c) =
       (if c \<in> set common_cols \<and> differs rt cfg df_old df_new idx c
        then cell_at df_old idx c else None)" for c
    using K C by simp
  have news: "rd (''New_'' @ c) =
       (if c \<in> set common_cols \<and> differs rt cfg df_old df_new idx c
        then cell_at df_new idx c else None)" for c
    using K C by simp
  have rest: "rd name = None"
    if "name \<noteq> ''Row''" "\<forall>x. name \<noteq> ''Key_'' @ x \<and> name \<noteq> ''Old_'' @ x \<and> name \<noteq> ''New_'' @ x"
    for name
    using K C that by simp
  show "is_record_of rt cfg df_old df_new sort_cols common_cols idx rd"
    unfolding is_record_of_def using row keys olds news rest by blast
qed

lemma compare_rows_result:
  "compare_rows rt cfg df_old df_new sort_cols common_cols idxs (report, mc) = Inr (report', mc')
   \<Longrightarrow> \<exists>recs. report' = report @ recs \<and>
         list_all2 (is_record_of rt cfg df_old df_new sort_cols common_cols)
           (filter (row_differs rt cfg df_old df_new common_cols) idxs) recs \<and>
         mc' = mc \<union> {c \<in> set common_cols. \<exists>idx\<in>set idxs. differs rt cfg df_old df_new idx c}"
proof (induction idxs arbitrary: report mc)
  case Nil
  then show ?case by simp
next
  case (Cons idx idxs)
  from Cons.prems obtain rd0 has mc1 rd where
    k: "key_entries df_old idx sort_cols [''Row'' \<mapsto> VInt (int idx + 1)] = Inr rd0" and
    c: "compare_cols rt cfg df_old df_new idx common_cols (False, mc, rd0) = Inr (has, mc1, rd)" and
    r: "compare_rows rt cfg df_old df_new sort_cols common_cols idxs
          (if has then report @ [rd] else report, mc1) = Inr (report', mc')"
    by (auto split: sum.splits prod.splits)
  note R = row_record [OF k c]
  from Cons.IH [OF r] obtain recs where
    recs: "report' = (if has then report @ [rd] else report) @ recs"
      "list_all2 (is_record_of rt cfg df_old df_new sort_cols common_cols)
         (filter (row_differs rt cfg df_old df_new common_cols) idxs) recs"
      "mc' = mc1 \<union> {c \<in> set common_cols. \<exists>idx\<in>set idxs. differs rt cfg df_old df_new idx c}"
    by blast
  show ?case
  proof (cases has)
    case True
    have "report' = report @ (rd # recs)"
      using recs(1) True by simp
    moreover have "list_all2 (is_record_of rt cfg df_old df_new sort_cols common_cols)
         (filter (row_differs rt cfg df_old df_new common_cols) (idx # idxs)) (rd # recs)"
      using recs(2) R(1) R(2) True by simp
    moreover have "mc' = mc \<union> {c \<in> set common_cols.
         \<exists>i\<in>set (idx # idxs). differs rt cfg df_old df_new i c}"
      using recs(3) R(3) by auto
    ultimately show ?thesis by blast
  next
    case False
    have "report' = report @ recs"
      using recs(1) False by simp
    moreover have "list_all2 (is_record_of rt cfg df_old df_new sort_cols common_cols)
         (filter (row_differs rt cfg df_old df_new common_cols) (idx # idxs)) recs"
      using recs(2) R(2) False by simp
    moreover have "mc' = mc \<union> {c \<in> set common_cols.
         \<exists>i\<in>set (idx # idxs). differs rt cfg df_old df_new i c}"
      using recs(3) R(3) by auto
    ultimately show ?thesis by blast
  qed
qed

lemma compare_sorted_result:
  assumes "compare_sorted rt cfg df_old df_new sort_cols = Inr res"
  shows "list_all2 (is_record_of rt cfg df_old df_new sort_cols (common_columns res))
           (filter (row_differs rt cfg df_old df_new (common_columns res))
              [0 ..< min (length (rows df_old)) (length (rows df_new))])
           (mismatch_report res)"
    and "mismatched_columns res =
           {c \<in> set (common_columns res).
              \<exists>idx < min (length (rows df_old)) (length (rows df_new)).
                 differs rt cfg df_old df_new idx c}"
    and "set (common_columns res) = set (columns df_old) \<inter> set (columns df_new)"
    and "row_count_warning res = (length (rows df_old) \<noteq> length (rows df_new))"
proof -
  define cc where "cc = filter (\<lambda>c. c \<in> set (columns df_new)) (remdups (columns df_old))"
  define n where "n = min (length (rows df_old)) (length (rows df_new))"
  from assms obtain report mc where
    r: "compare_rows rt cfg df_old df_new sort_cols cc [0 ..< n] ([], {}) = Inr (report, mc)" and
    res: "res = \<lparr>row_count_warning = (length (rows df_old) \<noteq> length (rows df_new)),
                 common_columns = cc, mismatch_report = report, mismatched_columns = mc\<rparr>"
    unfolding compare_sorted_def cc_def n_def Let_def
    by (auto split: sum.splits prod.splits)
  from compare_rows_result [OF r] have
    a: "list_all2 (is_record_of rt cfg df_old df_new sort_cols cc)
          (filter (row_differs rt cfg df_old df_new cc) [0 ..< n]) report" and
    b: "mc = {c \<in> set cc. \<exists>idx\<in>set [0 ..< n]. differs rt cfg df_old df_new idx c}"
    by auto
  show "list_all2 (is_record_of rt cfg df_old df_new sort_cols (common_columns res))
           (filter (row_differs rt cfg df_old df_new (common_columns res))
              [0 ..< min (length (rows df_old)) (length (rows df_new))])
           (mismatch_report res)"
    using a res n_def by simp
  show "mismatched_columns res =
           {c \<in> set (common_columns res).
              \<exists>idx < min (length (rows df_old)) (length (rows df_new)).
                 differs rt cfg df_old df_new idx c}"
    using b res n_def by auto
  show "set (common_columns res) = set (columns df_old) \<inter> set (columns df_new)"
    using res cc_def by auto
  show "row_count_warning res = (length (rows df_old) \<noteq> length (rows df_new))"
    using res by simp
qed

subsection \<open>An example run\<close>

lemma sort_a: "sort_values [''id''] frame_a = Inr frame_a"
  by (simp add: sort_values_def frame_a_def orderable_def cell_def cell_key_def isna_def row_key_def)

lemma sort_b: "sort_values [''id''] frame_b = Inr (frame_b\<lparr>rows := rev (rows frame_b)\<rparr>)"
  by (simp add: sort_values_def frame_b_def orderable_def cell_def cell_key_def isna_def row_key_def)

lemma py_float_letters: "py_float ''a'' = Inl ValueError" "py_float ''b'' = Inl ValueError" "py_float ''x'' = Inl ValueError"
   "py_float ''y'' = Inl ValueError" "py_float ''z'' = Inl ValueError"
  by (simp_all add: py_float_def parse_decimal_def to_ascii_def is_ascii_space_def is_digit_def lower_def lower_char_def Let_def)

lemma post_process_letters: "post_process example_runtime default_config (VStr ''a'') = ''a''"
  "post_process example_runtime default_config (VStr ''b'') = ''b''"
  "post_process example_runtime default_config (VStr ''x'') = ''x''"
  "post_process example_runtime default_config (VStr ''y'') = ''y''"
  "post_process example_runtime default_config (VStr ''z'') = ''z''"
  "post_process example_runtime default_config (VStr ''X'') = ''x''"
  unfolding post_process_def default_config_def py_str_def by code_simp+

lemma safe_equals_letters: "safe_equals example_runtime default_config (VStr ''a'') (VStr ''a'') = Inr True"
  "safe_equals example_runtime default_config (VStr ''b'') (VStr ''b'') = Inr True"
  "safe_equals example_runtime default_config (VStr ''x'') (VStr ''X'') = Inr True"
  "safe_equals example_runtime default_config (VStr ''y'') (VStr ''z'') = Inr False"
  "safe_equals example_runtime default_config (VStr ''z'') (VStr ''y'') = Inr False"
  by (simp_all add: safe_equals_def post_process_letters numeric_attempt_def py_float_letters isna_def)

lemma run_ab: "run example_runtime default_config frame_a frame_b [''id''] =
   Compared \<lparr>row_count_warning = False, common_columns = [''id'', ''v''],
     mismatch_report = [[''Row'' \<mapsto> VInt 2, ''Key_id'' \<mapsto> VStr ''b'', ''Old_v'' \<mapsto> VStr ''y'', ''New_v'' \<mapsto> VStr ''z'']],
     mismatched_columns = {''v''}\<rparr>"
  by (simp add: run_def sort_a sort_b compare_sorted_def) (simp add: frame_a_def frame_b_def loc_def safe_equals_letters upt_rec)


subsection \<open>The records of the report\<close>

text \<open>
  Claim C8: every record of the report belongs to a row position at which some common
  column differs, holds an \<^verbatim>\<open>Old_\<close> and a \<^verbatim>\<open>New_\<close> entry for exactly the common
  columns that differ there, and holds the key values of the row of the first (sorted)
  frame; a row position where no common column differs has no record. The report is the
  list of these records in the order of the row positions.
\<close>

theorem mismatch_records_have_diffs:
  assumes "run rt cfg df_old df_new sort_cols = Compared res"
  shows "\<exists>old_sorted new_sorted.
           sort_values sort_cols df_old = Inr old_sorted \<and>
           sort_values sort_cols df_new = Inr new_sorted \<and>
           list_all2 (is_record_of rt cfg old_sorted new_sorted sort_cols (common_columns res))
             (filter (row_differs rt cfg old_sorted new_sorted (common_columns res))
                [0 ..< min (length (rows old_sorted)) (length (rows new_sorted))])
             (mismatch_report res) \<and>
           (\<forall>rd \<in> set (mismatch_report res).
              \<exists>c v w. c \<in> set (common_columns res) \<and>
                rd (''Old_'' @ c) = Some v \<and> rd (''New_'' @ c) = Some w)"
proof -
  from assms obtain so sn where
    so: "sort_values sort_cols df_old = Inr so" and
    sn: "sort_values sort_cols df_new = Inr sn" and
    c: "compare_sorted rt cfg so sn sort_cols = Inr res"
    unfolding run_def by (auto split: if_splits sum.splits)
  let ?cc = "common_columns res"
  let ?idxs = "filter (row_differs rt cfg so sn ?cc) [0 ..< min (length (rows so)) (length (rows sn))]"
  have l: "list_all2 (is_record_of rt cfg so sn sort_cols ?cc) ?idxs (mismatch_report res)"
    by (rule compare_sorted_result(1) [OF c])
  have "\<exists>c v w. c \<in> set ?cc \<and> rd (''Old_'' @ c) = Some v \<and> rd (''New_'' @ c) = Some w"
    if "rd \<in> set (mismatch_report res)" for rd
  proof -
    from that obtain i where j: "i < length (mismatch_report res)" "rd = mismatch_report res ! i"
      by (auto simp: in_set_conv_nth)
    define idx where "idx = ?idxs ! i"
    have "i < length ?idxs"
      using j(1) list_all2_lengthD [OF l] by simp
    then have i: "idx \<in> set ?idxs"
      unfolding idx_def by (rule nth_mem)
    have r: "is_record_of rt cfg so sn sort_cols ?cc idx rd"
      unfolding idx_def j(2) by (rule list_all2_nthD2 [OF l j(1)])
    from i obtain c where c: "c \<in> set ?cc" "differs rt cfg so sn idx c"
      by (auto simp: row_differs_def list_ex_iff)
    from c(2) obtain v w where "cell_at so idx c = Some v" "cell_at sn idx c = Some w"
      by (auto simp: differs_def cell_at_def split: sum.splits)
    with r c show ?thesis
      unfolding is_record_of_def by auto
  qed
  with so sn l show ?thesis by blast
qed

theorem mismatch_records_have_diffs_witness:
  "run example_runtime default_config frame_a frame_b [''id''] =
     Compared \<lparr>row_count_warning = False, common_columns = [''id'', ''v''],
       mismatch_report = [[''Row'' \<mapsto> VInt 2, ''Key_id'' \<mapsto> VStr ''b'',
                           ''Old_v'' \<mapsto> VStr ''y'', ''New_v'' \<mapsto> VStr ''z'']],
       mismatched_columns = {''v''}\<rparr> \<and>
   (\<exists>c v w. [''Row'' \<mapsto> VInt 2, ''Key_id'' \<mapsto> VStr ''b'',
             ''Old_v'' \<mapsto> VStr ''y'', ''New_v'' \<mapsto> VStr ''z''] (''Old_'' @ c) = Some v \<and>
            [''Row'' \<mapsto> VInt 2, ''Key_id'' \<mapsto> VStr ''b'',
             ''Old_v'' \<mapsto> VStr ''y'', ''New_v'' \<mapsto> VStr ''z''] (''New_'' @ c) = Some w)"
  using run_ab mismatch_records_have_diffs [OF run_ab]
  by auto


subsection \<open>The key columns\<close>

lemma sort_values_missing:
  assumes "k \<in> set sort_cols" "k \<notin> set (columns df)"
  shows "\<exists>k'\<in>set sort_cols. k' \<notin> set (columns df) \<and> sort_values sort_cols df = Inl (KeyError k')"
proof -
  from assms have "k \<in> set (filter (\<lambda>k. k \<notin> set (columns df)) sort_cols)"
    by simp
  then obtain k' ks where f: "filter (\<lambda>k. k \<notin> set (columns df)) sort_cols = k' # ks"
    by (cases "filter (\<lambda>k. k \<notin> set (columns df)) sort_cols") auto
  then have "k' \<in> set (filter (\<lambda>k. k \<notin> set (columns df)) sort_cols)"
    by simp
  then have "k' \<in> set sort_cols" "k' \<notin> set (columns df)"
    by auto
  with f show ?thesis
    by (auto simp: sort_values_def)
qed

text \<open>
  Claim C9: with no key column the run stops at the message of line 175 and compares
  nothing; with a key column that one of the frames does not have, \<^verbatim>\<open>sort_values\<close>
  raises before the loop starts, and the run gives no report.
\<close>

theorem key_spec_rejected:
  "run rt cfg df_old df_new [] = NoKeySelected \<and>
   ((\<exists>k\<in>set sort_cols. k \<notin> set (columns df_old) \<or> k \<notin> set (columns df_new)) \<longrightarrow>
      (\<exists>e. run rt cfg df_old df_new sort_cols = Raised e) \<and>
      (\<exists>k\<in>set sort_cols.
          (k \<notin> set (columns df_old) \<and> sort_values sort_cols df_old = Inl (KeyError k)) \<or>
          (k \<notin> set (columns df_new) \<and> sort_values sort_cols df_new = Inl (KeyError k))))"
proof (intro conjI impI)
  show "run rt cfg df_old df_new [] = NoKeySelected"
    by (simp add: run_def)
next
  assume a: "\<exists>k\<in>set sort_cols. k \<notin> set (columns df_old) \<or> k \<notin> set (columns df_new)"
  then have ne: "sort_cols \<noteq> []" by auto
  from a show k: "\<exists>k\<in>set sort_cols.
          (k \<notin> set (columns df_old) \<and> sort_values sort_cols df_old = Inl (KeyError k)) \<or>
          (k \<notin> set (columns df_new) \<and> sort_values sort_cols df_new = Inl (KeyError k))"
    using sort_values_missing [of _ sort_cols df_old] sort_values_missing [of _ sort_cols df_new]
    by blast
  then show "\<exists>e. run rt cfg df_old df_new sort_cols = Raised e"
    using ne by (auto simp: run_def split: sum.splits)
qed

theorem key_spec_rejected_witness:
  "run example_runtime default_config frame_a frame_c [] = NoKeySelected \<and>
   ''id'' \<notin> set (columns frame_c) \<and>
   sort_values [''id''] frame_c = Inl (KeyError ''id'') \<and>
   run example_runtime default_config frame_a frame_c [''id''] = Raised (KeyError ''id'')"
  using key_spec_rejected [of example_runtime default_config frame_a frame_c "[''id'']"]
  by (simp add: run_def sort_a) (simp add: sort_values_def frame_c_def)

subsection \<open>The loop on well-formed frames\<close>

lemma sort_values_success:
  assumes "sort_values sort_cols df = Inr df_sorted"
  shows "columns df_sorted = columns df"
    and "rows df_sorted = sort_key (row_key sort_cols) (rows df)"
    and "set sort_cols \<subseteq> set (columns df)"
    and "length (rows df_sorted) = length (rows df)"
    and "set (rows df_sorted) = set (rows df)"
proof -
  from assms have f: "filter (\<lambda>k. k \<notin> set (columns df)) sort_cols = []"
    and s: "df_sorted = df\<lparr>rows := sort_key (row_key sort_cols) (rows df)\<rparr>"
    unfolding sort_values_def by (auto split: list.splits if_splits)
  show "columns df_sorted = columns df" using s by simp
  show r: "rows df_sorted = sort_key (row_key sort_cols) (rows df)" using s by simp
  show "set sort_cols \<subseteq> set (columns df)"
    using f by (auto simp: filter_empty_conv)
  show "length (rows df_sorted) = length (rows df)" using r by simp
  show "set (rows df_sorted) = set (rows df)" using r by simp
qed

lemma sort_values_wf:
  assumes "sort_values sort_cols df = Inr df_sorted" "wf_frame df"
  shows "wf_frame df_sorted"
  using assms(2) sort_values_success(1,5) [OF assms(1)]
  by (simp add: wf_frame_def list_all_iff)

lemma loc_wf:
  assumes "wf_frame df" "idx < length (rows df)" "col \<in> set (columns df)"
  shows "\<exists>v. loc df idx col = Inr v"
proof -
  have "rows df ! idx \<in> set (rows df)" using assms(2) by simp
  with assms(1) have "dom (rows df ! idx) = set (columns df)"
    by (simp add: wf_frame_def list_all_iff)
  with assms(3) obtain v where "(rows df ! idx) col = Some v" by blast
  with assms(2) show ?thesis by (simp add: loc_def)
qed

lemma key_entries_succeeds:
  assumes "wf_frame df" "idx < length (rows df)" "set ks \<subseteq> set (columns df)"
  shows "\<exists>rd'. key_entries df idx ks rd = Inr rd'"
  using assms(3)
proof (induction ks arbitrary: rd)
  case Nil
  then show ?case by simp
next
  case (Cons k ks)
  from Cons.prems loc_wf [OF assms(1,2), of k] obtain v where "loc df idx k = Inr v"
    by auto
  moreover have "\<exists>rd'. key_entries df idx ks (rd(''Key_'' @ k \<mapsto> v)) = Inr rd'"
    by (rule Cons.IH) (use Cons.prems in simp)
  ultimately show ?case
    by simp
qed

lemma compare_cols_succeeds:
  assumes "0 \<le> float_precision cfg"
    and "wf_frame df_old" "idx < length (rows df_old)"
    and "wf_frame df_new" "idx < length (rows df_new)"
    and "set cols \<subseteq> set (columns df_old) \<inter> set (columns df_new)"
  shows "\<exists>st'. compare_cols rt cfg df_old df_new idx cols st = Inr st'"
  using assms(6)
proof (induction cols arbitrary: st)
  case Nil
  show ?case by (cases st) auto
next
  case (Cons col cols)
  obtain has mc rd where st: "st = (has, mc, rd)" using prod_cases3 by blast
  from Cons.prems loc_wf [OF assms(2,3), of col] obtain ov where o: "loc df_old idx col = Inr ov"
    by auto
  from Cons.prems loc_wf [OF assms(4,5), of col] obtain nv where n: "loc df_new idx col = Inr nv"
    by auto
  from safe_equals_total [OF assms(1), of rt ov nv] obtain b where
    e: "safe_equals rt cfg ov nv = Inr b" by blast
  from Cons.prems have c: "set cols \<subseteq> set (columns df_old) \<inter> set (columns df_new)" by simp
  show ?case
    using o n e Cons.IH [OF c] unfolding st by (cases b) simp_all
qed

lemma compare_rows_succeeds:
  assumes "0 \<le> float_precision cfg" "wf_frame df_old" "wf_frame df_new"
    and "set sort_cols \<subseteq> set (columns df_old)"
    and "set common_cols \<subseteq> set (columns df_old) \<inter> set (columns df_new)"
    and "\<forall>idx\<in>set idxs. idx < length (rows df_old) \<and> idx < length (rows df_new)"
  shows "\<exists>st'. compare_rows rt cfg df_old df_new sort_cols common_cols idxs st = Inr st'"
  using assms(6)
proof (induction idxs arbitrary: st)
  case Nil
  then show ?case by simp
next
  case (Cons idx idxs)
  obtain report mc where st: "st = (report, mc)" by (cases st)
  from Cons.prems have i: "idx < length (rows df_old)" "idx < length (rows df_new)" by simp_all
  from key_entries_succeeds [OF assms(2) i(1) assms(4)] obtain rd0 where
    k: "key_entries df_old idx sort_cols [''Row'' \<mapsto> VInt (int idx + 1)] = Inr rd0" by blast
  from compare_cols_succeeds [OF assms(1,2) i(1) assms(3) i(2) assms(5)] obtain has mc' rd where
    c: "compare_cols rt cfg df_old df_new idx common_cols (False, mc, rd0) = Inr (has, mc', rd)"
    by (metis prod_cases3)
  from Cons.prems have "\<forall>idx\<in>set idxs. idx < length (rows df_old) \<and> idx < length (rows df_new)"
    by simp
  from Cons.IH [OF this] k c show ?case
    unfolding st by simp
qed

lemma compare_sorted_succeeds:
  assumes "0 \<le> float_precision cfg" "wf_frame df_old" "wf_frame df_new"
    and "set sort_cols \<subseteq> set (columns df_old)"
  shows "\<exists>res. compare_sorted rt cfg df_old df_new sort_cols = Inr res"
proof -
  have "\<exists>st'. compare_rows rt cfg df_old df_new sort_cols
            (filter (\<lambda>c. c \<in> set (columns df_new)) (remdups (columns df_old)))
            [0 ..< min (length (rows df_old)) (length (rows df_new))] ([], {}) = Inr st'"
    by (rule compare_rows_succeeds [OF assms]) auto
  then show ?thesis
    unfolding compare_sorted_def Let_def by (auto split: prod.splits)
qed

lemma key_entries_cong:
  assumes "\<And>c. loc df idx c = loc df' idx c"
  shows "key_entries df idx ks rd = key_entries df' idx ks rd"
  by (induction ks arbitrary: rd) (simp_all add: assms split: sum.splits)

lemma compare_cols_cong:
  assumes "\<And>c. loc df_old idx c = loc df_old' idx c" "\<And>c. loc df_new idx c = loc df_new' idx c"
  shows "compare_cols rt cfg df_old df_new idx cols st = compare_cols rt cfg df_old' df_new' idx cols st"
proof (induction cols arbitrary: st)
  case Nil
  show ?case by (cases st) auto
next
  case (Cons col cols)
  obtain has mc rd where st: "st = (has, mc, rd)" using prod_cases3 by blast
  show ?case
    unfolding st using Cons.IH by (simp add: assms split: sum.splits bool.splits)
qed

lemma compare_rows_cong:
  assumes "\<And>idx c. idx \<in> set idxs \<Longrightarrow> loc df_old idx c = loc df_old' idx c"
    and "\<And>idx c. idx \<in> set idxs \<Longrightarrow> loc df_new idx c = loc df_new' idx c"
  shows "compare_rows rt cfg df_old df_new sort_cols common_cols idxs st =
         compare_rows rt cfg df_old' df_new' sort_cols common_cols idxs st"
  using assms
proof (induction idxs arbitrary: st)
  case Nil
  then show ?case by simp
next
  case (Cons idx idxs)
  obtain report mc where st: "st = (report, mc)" by (cases st)
  have k: "key_entries df_old idx sort_cols rd = key_entries df_old' idx sort_cols rd" for rd
    by (rule key_entries_cong) (simp add: Cons.prems(1))
  have c: "compare_cols rt cfg df_old df_new idx common_cols s =
           compare_cols rt cfg df_old' df_new' idx common_cols s" for s
    by (rule compare_cols_cong) (simp_all add: Cons.prems)
  have r: "compare_rows rt cfg df_old df_new sort_cols common_cols idxs s =
           compare_rows rt cfg df_old' df_new' sort_cols common_cols idxs s" for s
    by (rule Cons.IH) (simp_all add: Cons.prems)
  show ?case
    unfolding st by (simp add: k c r split: sum.splits prod.splits)
qed

lemma loc_head_rows: "idx < n \<Longrightarrow> loc (head_rows n df) idx c = loc df idx c"
  by (simp add: loc_def head_rows_def)

lemma compare_sorted_head_rows:
  assumes n: "n = min (length (rows df_old)) (length (rows df_new))"
    and c: "compare_sorted rt cfg df_old df_new sort_cols = Inr res"
  shows "compare_sorted rt cfg (head_rows n df_old) (head_rows n df_new) sort_cols =
           Inr (res\<lparr>row_count_warning := False\<rparr>)"
proof -
  define cc where "cc = filter (\<lambda>c. c \<in> set (columns df_new)) (remdups (columns df_old))"
  from c obtain report mc where
    r: "compare_rows rt cfg df_old df_new sort_cols cc [0 ..< n] ([], {}) = Inr (report, mc)" and
    res: "res = \<lparr>row_count_warning = (length (rows df_old) \<noteq> length (rows df_new)),
                 common_columns = cc, mismatch_report = report, mismatched_columns = mc\<rparr>"
    unfolding compare_sorted_def cc_def n Let_def
    by (auto split: sum.splits prod.splits)
  have "compare_rows rt cfg (head_rows n df_old) (head_rows n df_new) sort_cols cc [0 ..< n] ([], {}) =
        compare_rows rt cfg df_old df_new sort_cols cc [0 ..< n] ([], {})"
    by (rule compare_rows_cong) (simp_all add: loc_head_rows)
  with r have h: "compare_rows rt cfg (head_rows n df_old) (head_rows n df_new) sort_cols cc
         [0 ..< n] ([], {}) = Inr (report, mc)"
    by simp
  have l: "min (length (rows (head_rows n df_old))) (length (rows (head_rows n df_new))) = n"
    "length (rows (head_rows n df_old)) = length (rows (head_rows n df_new))"
    "columns (head_rows n df_old) = columns df_old" "columns (head_rows n df_new) = columns df_new"
    using n by (auto simp: head_rows_def)
  show ?thesis
    unfolding compare_sorted_def Let_def l(1,3,4) cc_def [symmetric]
    using h l(2) by (simp add: res)
qed

subsection \<open>Row counts\<close>

text \<open>
  Claim C7: on well-formed frames that \<^verbatim>\<open>sort_values\<close> accepts, the run completes
  without any exception; it sets the warning exactly when the row counts differ (the
  warning is no record of the report); the records belong to row positions below the
  smaller row count; and the report is the one that the first rows of the two sorted
  frames alone give, so no row beyond the smaller count is compared.
\<close>

theorem row_count_mismatch:
  assumes "wf_frame df_old" "wf_frame df_new" "0 \<le> float_precision cfg"
    and "sort_values sort_cols df_old = Inr old_sorted"
    and "sort_values sort_cols df_new = Inr new_sorted"
    and "sort_cols \<noteq> []"
    and "n = min (length (rows df_old)) (length (rows df_new))"
  shows "\<exists>res. run rt cfg df_old df_new sort_cols = Compared res \<and>
           row_count_warning res = (length (rows df_old) \<noteq> length (rows df_new)) \<and>
           list_all2 (is_record_of rt cfg old_sorted new_sorted sort_cols (common_columns res))
             (filter (row_differs rt cfg old_sorted new_sorted (common_columns res)) [0 ..< n])
             (mismatch_report res) \<and>
           compare_sorted rt cfg (head_rows n old_sorted) (head_rows n new_sorted) sort_cols
             = Inr (res\<lparr>row_count_warning := False\<rparr>)"
proof -
  note so = sort_values_success [OF assms(4)]
  note sn = sort_values_success [OF assms(5)]
  have n: "n = min (length (rows old_sorted)) (length (rows new_sorted))"
    using assms(7) so(4) sn(4) by simp
  have "set sort_cols \<subseteq> set (columns old_sorted)"
    using so(1,3) by simp
  from compare_sorted_succeeds [OF assms(3) sort_values_wf [OF assms(4,1)]
      sort_values_wf [OF assms(5,2)] this]
  obtain res where c: "compare_sorted rt cfg old_sorted new_sorted sort_cols = Inr res"
    by blast
  have "run rt cfg df_old df_new sort_cols = Compared res"
    using assms(4,5,6) c by (simp add: run_def)
  moreover have "row_count_warning res = (length (rows df_old) \<noteq> length (rows df_new))"
    using compare_sorted_result(4) [OF c] so(4) sn(4) by simp
  moreover have "list_all2 (is_record_of rt cfg old_sorted new_sorted sort_cols (common_columns res))
             (filter (row_differs rt cfg old_sorted new_sorted (common_columns res)) [0 ..< n])
             (mismatch_report res)"
    using compare_sorted_result(1) [OF c] n by simp
  moreover have "compare_sorted rt cfg (head_rows n old_sorted) (head_rows n new_sorted) sort_cols
             = Inr (res\<lparr>row_count_warning := False\<rparr>)"
    using n c by (rule compare_sorted_head_rows)
  ultimately show ?thesis by blast
qed

lemma sort_short: "sort_values [''id''] frame_short = Inr frame_short"
  by (simp add: sort_values_def frame_short_def orderable_def cell_def cell_key_def isna_def
      row_key_def)

lemma run_a_short:
  "run example_runtime default_config frame_a frame_short [''id''] =
     Compared \<lparr>row_count_warning = True, common_columns = [''id'', ''v''],
               mismatch_report = [], mismatched_columns = {}\<rparr>"
proof -
  have "0 \<le> float_precision default_config"
    by (simp add: default_config_def)
  note r = safe_equals_refl [OF this, of example_runtime]
  show ?thesis
    by (simp add: run_def sort_a sort_short compare_sorted_def)
       (simp add: frame_a_def frame_short_def loc_def r upt_rec)
qed

theorem row_count_mismatch_witness:
  "wf_frame frame_a \<and> wf_frame frame_short \<and> 0 \<le> float_precision default_config \<and>
   sort_values [''id''] frame_a = Inr frame_a \<and>
   sort_values [''id''] frame_short = Inr frame_short \<and>
   length (rows frame_a) = 2 \<and> length (rows frame_short) = 1 \<and>
   run example_runtime default_config frame_a frame_short [''id''] =
     Compared \<lparr>row_count_warning = True, common_columns = [''id'', ''v''],
               mismatch_report = [], mismatched_columns = {}\<rparr> \<and>
   compare_sorted example_runtime default_config (head_rows 1 frame_a) (head_rows 1 frame_short)
     [''id''] =
     Inr \<lparr>row_count_warning = False, common_columns = [''id'', ''v''],
          mismatch_report = [], mismatched_columns = {}\<rparr>"
proof -
  have w: "wf_frame frame_a" "wf_frame frame_short"
    by (auto simp add: wf_frame_def frame_a_def frame_short_def)
  have p: "0 \<le> float_precision default_config"
    by (simp add: default_config_def)
  have l: "length (rows frame_a) = 2" "length (rows frame_short) = 1"
    by (simp_all add: frame_a_def frame_short_def)
  have n: "(1::nat) = min (length (rows frame_a)) (length (rows frame_short))"
    using l by simp
  have k: "[''id''] \<noteq> []" by simp
  show ?thesis
    using w p l sort_a sort_short run_a_short
      row_count_mismatch [OF w p sort_a sort_short k n, of example_runtime]
    by auto
qed

subsection \<open>Frames with the same rows\<close>










end
